theory Spec2Isabelle
  imports Complex_Main "HOL-Library.Sublist"
begin

section \<open>Python strings\<close>

text \<open>
  A Python \<^verbatim>\<open>str\<close> is modelled as a \<^typ>\<open>string\<close>: a list of characters, each
  \<^typ>\<open>char\<close> standing for the code point of the same number (0 to 255). The
  classifications below are the ones Python (and its \<^verbatim>\<open>re\<close> module, on
  \<^verbatim>\<open>str\<close> patterns) gives to these code points. Code points above 255 are
  outside the model.
\<close>

definition isspace :: "char \<Rightarrow> bool" where
  \<comment> \<open>\<^verbatim>\<open>str.isspace\<close>, the class \<^verbatim>\<open>\s\<close> of \<^verbatim>\<open>re\<close>, and what \<^verbatim>\<open>str.strip()\<close> removes\<close>
  "isspace c = ((of_char c :: nat) \<in> set [9, 10, 11, 12, 13, 28, 29, 30, 31, 32, 133, 160])"

definition isdigit :: "char \<Rightarrow> bool" where
  \<comment> \<open>\<^verbatim>\<open>str.isdigit\<close>: the decimal digits and the superscript digits of Latin-1\<close>
  "isdigit c = (let n = (of_char c :: nat) in (48 \<le> n \<and> n \<le> 57) \<or> n \<in> set [178, 179, 185])"

definition isalnum :: "char \<Rightarrow> bool" where
  \<comment> \<open>\<^verbatim>\<open>str.isalnum\<close>: letters and numeric characters\<close>
  "isalnum c =
     (let n = (of_char c :: nat) in
        (48 \<le> n \<and> n \<le> 57) \<or> (65 \<le> n \<and> n \<le> 90) \<or> (97 \<le> n \<and> n \<le> 122) \<or>
        n \<in> set [170, 178, 179, 181, 185, 186, 188, 189, 190] \<or>
        (192 \<le> n \<and> n \<le> 214) \<or> (216 \<le> n \<and> n \<le> 246) \<or> (248 \<le> n \<and> n \<le> 255))"

definition isword :: "char \<Rightarrow> bool" where
  \<comment> \<open>the class \<^verbatim>\<open>\w\<close> of \<^verbatim>\<open>re\<close>: alphanumeric or the underscore\<close>
  "isword c = (isalnum c \<or> c = CHR ''_'')"

definition lower_char :: "char \<Rightarrow> char" where
  "lower_char c =
     (let n = (of_char c :: nat) in
        if (65 \<le> n \<and> n \<le> 90) \<or> (192 \<le> n \<and> n \<le> 214) \<or> (216 \<le> n \<and> n \<le> 222)
        then char_of (n + 32) else c)"

definition lower :: "string \<Rightarrow> string" where
  \<comment> \<open>\<^verbatim>\<open>str.lower\<close>\<close>
  "lower s = map lower_char s"

definition upper_char :: "char \<Rightarrow> char" where
  \<comment> \<open>the upper-case forms of U+00B5, U+00DF and U+00FF are not Latin-1 code points (and
      contain no ASCII letter other than S); they are left as they are\<close>
  "upper_char c =
     (let n = (of_char c :: nat) in
        if (97 \<le> n \<and> n \<le> 122) \<or> (224 \<le> n \<and> n \<le> 246) \<or> (248 \<le> n \<and> n \<le> 254)
        then char_of (n - 32) else c)"

definition upper :: "string \<Rightarrow> string" where
  \<comment> \<open>\<^verbatim>\<open>str.upper\<close>\<close>
  "upper s = map upper_char s"

definition strip :: "string \<Rightarrow> string" where
  \<comment> \<open>\<^verbatim>\<open>str.strip()\<close>: leading and trailing whitespace removed\<close>
  "strip s = rev (dropWhile isspace (rev (dropWhile isspace s)))"

fun py_split :: "char \<Rightarrow> string \<Rightarrow> string list" where
  \<comment> \<open>\<^verbatim>\<open>s.split(sep)\<close> for a one-character separator: never the empty list\<close>
  "py_split sep [] = [[]]"
| "py_split sep (c # cs) =
     (if c = sep then [] # py_split sep cs
      else (case py_split sep cs of
              [] \<Rightarrow> [[c]]
            | p # ps \<Rightarrow> (c # p) # ps))"

function split_ws :: "string \<Rightarrow> string list" where
  \<comment> \<open>\<^verbatim>\<open>s.split()\<close>: the maximal runs of non-whitespace characters\<close>
  "split_ws s =
     (let t = dropWhile isspace s in
        if t = [] then []
        else takeWhile (\<lambda>c. \<not> isspace c) t # split_ws (dropWhile (\<lambda>c. \<not> isspace c) t))"
  by pat_completeness auto
termination
proof (relation "measure length")
  show "wf (measure length)" by simp
next
  fix s t :: string
  assume t: "t = dropWhile isspace s" and ne: "t \<noteq> []"
  have "length (dropWhile (\<lambda>c. \<not> isspace c) t) < length t"
  proof (cases t)
    case Nil
    with ne show ?thesis by simp
  next
    case (Cons a u)
    from t have "\<not> isspace (hd t)"
      using ne hd_dropWhile by metis
    with Cons have "dropWhile (\<lambda>c. \<not> isspace c) t = dropWhile (\<lambda>c. \<not> isspace c) u"
      by simp
    moreover have "length (dropWhile (\<lambda>c. \<not> isspace c) u) \<le> length u"
      by (rule length_dropWhile_le)
    ultimately show ?thesis using Cons by simp
  qed
  moreover have "length t \<le> length s"
    unfolding t by (rule length_dropWhile_le)
  ultimately show "(dropWhile (\<lambda>c. \<not> isspace c) t, s) \<in> measure length"
    by simp
qed

fun join :: "string \<Rightarrow> string list \<Rightarrow> string" where
  \<comment> \<open>\<^verbatim>\<open>sep.join(parts)\<close>\<close>
  "join sep [] = []"
| "join sep [p] = p"
| "join sep (p # q # ps) = p @ sep @ join sep (q # ps)"

fun contains :: "string \<Rightarrow> string \<Rightarrow> bool" where
  \<comment> \<open>\<^verbatim>\<open>w in s\<close> on strings: \<open>w\<close> occurs in \<open>s\<close> as a contiguous substring\<close>
  "contains w [] = (w = [])"
| "contains w (c # cs) = (prefix w (c # cs) \<or> contains w cs)"

section \<open>Text cleaning (processor/utils.py)\<close>

function sub_whitespace :: "string \<Rightarrow> string" where
  \<comment> \<open>\<^verbatim>\<open>re.sub(r'\s+', ' ', text)\<close>: every maximal run of whitespace becomes one space\<close>
  "sub_whitespace [] = []"
| "sub_whitespace (c # cs) =
     (if isspace c then CHR '' '' # sub_whitespace (dropWhile isspace cs)
      else c # sub_whitespace cs)"
  by pat_completeness auto
termination
  by (relation "measure length") (auto simp: length_dropWhile_le less_Suc_eq_le)

definition allowed_char :: "char \<Rightarrow> bool" where
  \<comment> \<open>the characters that \<^verbatim>\<open>re.sub(r'[^\w\s.,!?;:()\-$@]', '', text)\<close> keeps\<close>
  "allowed_char c = (isword c \<or> isspace c \<or> c \<in> set ''.,!?;:()-$@'')"

definition clean_text :: "string \<Rightarrow> string" where
  "clean_text text0 =
     (if text0 = [] then []
      else
        let text1 = sub_whitespace text0;
            text2 = filter allowed_char text1;
            lines0 = py_split (CHR 0x0A) text2;
            lines1 = map strip (filter (\<lambda>line. length (strip line) > 2) lines0)
        in strip (join '' '' lines1))"

definition clean_text_standalone :: "string \<Rightarrow> string" where
  \<comment> \<open>\<^verbatim>\<open>clean_text\<close> of the standalone script (utils.py): collapse, then strip\<close>
  "clean_text_standalone text0 =
     (if text0 = [] then [] else strip (sub_whitespace text0))"

fun collapsed :: "string \<Rightarrow> bool" where
  \<comment> \<open>the only whitespace is the single space, and no two spaces are adjacent\<close>
  "collapsed [] = True"
| "collapsed [c] = (if isspace c then c = CHR '' '' else True)"
| "collapsed (c # d # cs) =
     ((if isspace c then c = CHR '' '' \<and> \<not> isspace d else True) \<and> collapsed (d # cs))"

section \<open>Regex entity extraction (processor/utils.py)\<close>

text \<open>
  A Python \<^verbatim>\<open>dict\<close> is an association list in insertion order whose keys are
  distinct. Assigning to a key that is present replaces its value in place; assigning to
  a new key appends the entry.
\<close>

fun dict_set :: "'k \<Rightarrow> 'v \<Rightarrow> ('k \<times> 'v) list \<Rightarrow> ('k \<times> 'v) list" where
  "dict_set k v [] = [(k, v)]"
| "dict_set k v ((k', v') # d) =
     (if k' = k then (k', v) # d else (k', v') # dict_set k v d)"

fun fromkeys_from :: "'a list \<Rightarrow> 'a list \<Rightarrow> 'a list" where
  \<comment> \<open>the keys of a dict as \<^verbatim>\<open>dict.fromkeys\<close> fills it: a key that is present stays
      where it is\<close>
  "fromkeys_from keys [] = keys"
| "fromkeys_from keys (x # xs) =
     fromkeys_from (if x \<in> set keys then keys else keys @ [x]) xs"

definition fromkeys :: "'a list \<Rightarrow> 'a list" where
  \<comment> \<open>\<^verbatim>\<open>list(dict.fromkeys(matches))\<close>\<close>
  "fromkeys xs = fromkeys_from [] xs"

definition find_matches :: "('p \<Rightarrow> string \<Rightarrow> 'm list) \<Rightarrow> string \<Rightarrow> 'p list \<Rightarrow> 'm list" where
  \<comment> \<open>the inner loop: \<^verbatim>\<open>matches.extend(re.findall(pattern, text, re.IGNORECASE))\<close> for
      each pattern of the list, in order\<close>
  "find_matches fa text pattern_list = concat (map (\<lambda>pattern. fa pattern text) pattern_list)"

fun extract_entities_from ::
  "('p \<Rightarrow> string \<Rightarrow> 'm list) \<Rightarrow> string \<Rightarrow> (string \<times> 'p list) list \<Rightarrow>
     (string \<times> 'm list) list \<Rightarrow> (string \<times> 'm list) list" where
  "extract_entities_from fa text [] entities = entities"
| "extract_entities_from fa text ((entity_type, pattern_list) # rest) entities =
     (let matches = find_matches fa text pattern_list in
        extract_entities_from fa text rest
          (if matches \<noteq> [] then dict_set entity_type (fromkeys matches) entities
           else entities))"

definition extract_entities ::
  "('p \<Rightarrow> string \<Rightarrow> 'm list) \<Rightarrow> string \<Rightarrow> (string \<times> 'p list) list \<Rightarrow> (string \<times> 'm list) list" where
  \<comment> \<open>\<open>fa pattern text\<close> is \<^verbatim>\<open>re.findall(pattern, text, re.IGNORECASE)\<close>; a pattern is
      a regular expression that \<^verbatim>\<open>re\<close> compiles\<close>
  "extract_entities fa text patterns = extract_entities_from fa text patterns []"

section \<open>The standalone script's regex extraction (config.py, utils.py)\<close>

definition ENTITY_PATTERNS_standalone :: "(string \<times> string) list" where
  \<comment> \<open>\<^verbatim>\<open>ENTITY_PATTERNS\<close> of config.py: one pattern per kind\<close>
  "ENTITY_PATTERNS_standalone =
     [(''email'', [CHR 0x5C] @ ''b[A-Za-z0-9._%+-]+@[A-Za-z0-9.-]+'' @ [CHR 0x5C] @ ''.[A-Z|a-z]{2,}'' @ [CHR 0x5C] @ ''b''),
      (''phone'', [CHR 0x5C] @ ''b'' @ [CHR 0x5C] @ ''d{3}[-.]?'' @ [CHR 0x5C] @ ''d{3}[-.]?'' @ [CHR 0x5C] @ ''d{4}'' @ [CHR 0x5C] @ ''b''),
      (''date'', [CHR 0x5C] @ ''d{1,2}[/-]'' @ [CHR 0x5C] @ ''d{1,2}[/-]'' @ [CHR 0x5C] @ ''d{2,4}''),
      (''amount'', [CHR 0x5C] @ ''$'' @ [CHR 0x5C] @ ''s*'' @ [CHR 0x5C] @ ''d+'' @ [CHR 0x5C] @ ''.?'' @ [CHR 0x5C] @ ''d*'')]"

fun extract_entities_standalone_from ::
  "(string \<Rightarrow> string \<Rightarrow> string list) \<Rightarrow> (string list \<Rightarrow> string list) \<Rightarrow> string \<Rightarrow>
     (string \<times> string) list \<Rightarrow> (string \<times> string list) list \<Rightarrow> (string \<times> string list) list" where
  \<comment> \<open>the loop of \<^verbatim>\<open>extract_entities\<close> of utils.py over the items of the table\<close>
  "extract_entities_standalone_from fa to_list text0 [] entities = entities"
| "extract_entities_standalone_from fa to_list text0 ((entity_type, pattern) # rest) entities =
     (let matches = fa pattern text0 in
        extract_entities_standalone_from fa to_list text0 rest
          (if matches \<noteq> [] then dict_set entity_type (to_list matches) entities
           else entities))"

definition extract_entities_standalone ::
  "(string \<Rightarrow> string \<Rightarrow> string list) \<Rightarrow> (string list \<Rightarrow> string list) \<Rightarrow> string \<Rightarrow>
     (string \<times> string list) list" where
  \<comment> \<open>\<^verbatim>\<open>extract_entities(text)\<close> of utils.py. \<open>fa pattern text\<close> is
      \<^verbatim>\<open>re.findall(pattern, text, re.IGNORECASE)\<close> and \<open>to_list matches\<close> is
      \<^verbatim>\<open>list(set(matches))\<close>, in the order the interpreter's hash set lists them.\<close>
  "extract_entities_standalone fa to_list text0 =
     extract_entities_standalone_from fa to_list text0 ENTITY_PATTERNS_standalone []"

definition set_semantics :: "(string list \<Rightarrow> string list) \<Rightarrow> bool" where
  \<comment> \<open>what Python promises of \<^verbatim>\<open>list(set(xs))\<close>: each element of \<open>xs\<close> once\<close>
  "set_semantics f = (\<forall>xs. distinct (f xs) \<and> set (f xs) = set xs)"

section \<open>The regex extractor in the spec's words\<close>

function dedup_first :: "'a list \<Rightarrow> 'a list" where
  \<comment> \<open>the spec's words: deduplicated, in first-seen order\<close>
  "dedup_first [] = []"
| "dedup_first (x # xs) = x # dedup_first (removeAll x xs)"
  by pat_completeness auto
termination
  by (relation "measure length") (auto simp: length_removeAll_less_eq less_Suc_eq_le)

definition entities_spec ::
  "('p \<Rightarrow> string \<Rightarrow> 'm list) \<Rightarrow> string \<Rightarrow> (string \<times> 'p list) list \<Rightarrow> (string \<times> 'm list) list" where
  \<comment> \<open>the spec's words: per entity kind all matches of its patterns, deduplicated in
      first-seen order; kinds with no match left out\<close>
  "entities_spec fa text patterns =
     map (\<lambda>(entity_type, pattern_list). (entity_type, dedup_first (find_matches fa text pattern_list)))
       (filter (\<lambda>(entity_type, pattern_list). find_matches fa text pattern_list \<noteq> []) patterns)"

section \<open>Configuration (processor/config.py)\<close>

definition DOCUMENT_CATEGORIES :: "string list" where
  "DOCUMENT_CATEGORIES =
     [''advertisement'', ''budget'', ''email'', ''file_folder'', ''form'', ''handwritten'',
      ''invoice'', ''letter'', ''memo'', ''news_article'', ''presentation'', ''questionnaire'',
      ''resume'', ''scientific_publication'', ''scientific_report'', ''specification'']"

definition bs :: string where
  \<comment> \<open>the backslash of a regular expression's source text\<close>
  "bs = [CHR 0x5C]"

definition ENTITY_PATTERNS :: "(string \<times> string list) list" where
  "ENTITY_PATTERNS =
     [(''email'',
        [bs @ ''b[A-Za-z0-9._%+-]+@[A-Za-z0-9.-]+'' @ bs @ ''.[A-Z|a-z]{2,}'' @ bs @ ''b'']),
      (''phone'',
        [bs @ ''b'' @ bs @ ''d{3}[-.]?'' @ bs @ ''d{3}[-.]?'' @ bs @ ''d{4}'' @ bs @ ''b'',
         bs @ ''('' @ bs @ ''d{3}'' @ bs @ '')'' @ bs @ ''s*'' @ bs @ ''d{3}[-.]?'' @ bs @ ''d{4}'' @ bs @ ''b'']),
      (''date'',
        [bs @ ''b'' @ bs @ ''d{1,2}[/-]'' @ bs @ ''d{1,2}[/-]'' @ bs @ ''d{2,4}'' @ bs @ ''b'',
         bs @ ''b'' @ bs @ ''d{4}[-/]'' @ bs @ ''d{1,2}[-/]'' @ bs @ ''d{1,2}'' @ bs @ ''b'',
         bs @ ''b(?:Jan|Feb|Mar|Apr|May|Jun|Jul|Aug|Sep|Oct|Nov|Dec)[a-z]*'' @ bs @ ''s+'' @ bs @ ''d{1,2},?'' @ bs @ ''s+'' @ bs @ ''d{4}'' @ bs @ ''b'']),
      (''amount'',
        [bs @ ''$'' @ bs @ ''d{1,3}(?:,'' @ bs @ ''d{3})*(?:'' @ bs @ ''.'' @ bs @ ''d{2})?'',
         bs @ ''b'' @ bs @ ''d{1,3}(?:,'' @ bs @ ''d{3})*(?:'' @ bs @ ''.'' @ bs @ ''d{2})?'' @ bs @ ''s*(?:USD|dollars?)'' @ bs @ ''b'']),
      (''invoice_number'',
        [''(?:Invoice|INV)['' @ bs @ ''s#-]*('' @ bs @ ''d+)'',
         ''(?:Bill|Receipt)['' @ bs @ ''s#-]*('' @ bs @ ''d+)'']),
      (''ssn'',
        [bs @ ''b'' @ bs @ ''d{3}-'' @ bs @ ''d{2}-'' @ bs @ ''d{4}'' @ bs @ ''b''])]"

section \<open>The pipeline's data and its collaborators (processor/pipeline.py)\<close>

datatype exn =
  ImportError string  \<comment> \<open>\<^verbatim>\<open>from m import n\<close> where module \<open>m\<close> has no name \<open>n\<close>\<close>
| LibraryError string  \<comment> \<open>an exception raised inside a library call\<close>

type_synonym entities = "(string \<times> string list) list"

type_synonym embedding = "rat list"

record doc =
  doc_id :: string
  doc_filename :: string
  doc_file_path :: string
  doc_category :: string
  doc_text :: string
  doc_entities :: entities
  doc_word_count :: nat
  doc_timestamp :: string

record metadata =
  md_category :: string
  md_filename :: string
  md_word_count :: nat
  md_entities :: entities  \<comment> \<open>stands for its JSON text, \<^verbatim>\<open>json.dumps(doc['entities'])\<close>\<close>

record add_request =
  \<comment> \<open>the keyword arguments of one call of \<^verbatim>\<open>collection.add\<close>\<close>
  req_ids :: "string list"
  req_documents :: "string list"
  req_embeddings :: "embedding list"
  req_metadatas :: "metadata list"

record ner_entity =
  \<comment> \<open>one aggregated span of the token-classification model\<close>
  entity_group :: string
  word :: string
  score :: rat

datatype ocr_outcome =
  Unreadable  \<comment> \<open>\<^verbatim>\<open>cv2.imread\<close> returned \<^verbatim>\<open>None\<close>\<close>
| OcrRaised  \<comment> \<open>OpenCV or Tesseract raised\<close>
| OcrText string  \<comment> \<open>what \<^verbatim>\<open>pytesseract.image_to_string\<close> returned\<close>

text \<open>
  The libraries and the machine the code runs on. \<^verbatim>\<open>re.findall\<close> returns a list of
  strings for a pattern with at most one capture group (\<open>findall\<close>) and a list of
  tuples of strings for a pattern with several (\<open>findall_groups\<close>); the flag says
  whether \<^verbatim>\<open>re.IGNORECASE\<close> is passed. \<open>set_to_list xs\<close> is \<^verbatim>\<open>list(set(xs))\<close>, in
  the iteration order of the interpreter's hash set.
\<close>

record platform =
  findall :: "string \<Rightarrow> bool \<Rightarrow> string \<Rightarrow> string list"
  findall_groups :: "string \<Rightarrow> bool \<Rightarrow> string \<Rightarrow> string list list"
  set_to_list :: "string list \<Rightarrow> string list"
  ocr_image :: "string \<Rightarrow> ocr_outcome"
  now_isoformat :: "nat \<Rightarrow> string"  \<comment> \<open>\<^verbatim>\<open>datetime.now().isoformat()\<close> at the n-th reading\<close>
  write_results :: "doc list \<Rightarrow> exn option"  \<comment> \<open>writing results.json and summary.csv\<close>

text \<open>
  The pipeline object: the NER pipeline (\<^verbatim>\<open>None\<close> when it failed to load), the
  embedder and the vector-store collection. Each call may raise. What
  \<^verbatim>\<open>collection.add\<close> does may depend on the requests it received before.
\<close>

record pipeline =
  ner_pipeline :: "(string \<Rightarrow> exn + ner_entity list) option"
  embedder_encode :: "string list \<Rightarrow> exn + embedding list"
  collection_add :: "add_request list \<Rightarrow> add_request \<Rightarrow> exn option"

record world =
  add_calls :: "add_request list"  \<comment> \<open>the calls of \<^verbatim>\<open>collection.add\<close> so far, oldest first\<close>
  save_calls :: "doc list list"  \<comment> \<open>the batches handed to the JSON/CSV sink so far\<close>
  clock :: nat  \<comment> \<open>how often the clock was read\<close>

section \<open>Classification (processor/pipeline.py)\<close>

definition os_sep :: char where
  \<comment> \<open>\<^verbatim>\<open>os.sep\<close> on a POSIX system\<close>
  "os_sep = CHR ''/''"

definition basename :: "string \<Rightarrow> string" where
  \<comment> \<open>\<^verbatim>\<open>os.path.basename\<close>: what follows the last separator\<close>
  "basename file_path = last (py_split os_sep file_path)"

definition any_word_in :: "string list \<Rightarrow> string \<Rightarrow> bool" where
  \<comment> \<open>\<^verbatim>\<open>any(word in text for word in words)\<close>\<close>
  "any_word_in words s = list_ex (\<lambda>word. contains word s) words"

definition classify_document :: "string \<Rightarrow> string \<Rightarrow> string" where
  "classify_document file_path text0 =
     (case List.find (\<lambda>part. part \<in> set DOCUMENT_CATEGORIES) (py_split os_sep file_path) of
        Some part \<Rightarrow> part
      | None \<Rightarrow>
          let text_lower = lower text0 in
            if any_word_in [''invoice'', ''bill'', ''payment'', ''amount'', ''$''] text_lower
            then ''invoice''
            else if any_word_in [''form'', ''application'', ''request''] text_lower
            then ''form''
            else if any_word_in [''resume'', ''cv'', ''experience'', ''education''] text_lower
            then ''resume''
            else if any_word_in [''letter'', ''dear'', ''sincerely''] text_lower
            then ''letter''
            else if any_word_in [''memo'', ''memorandum'', ''subject:''] text_lower
            then ''memo''
            else ''unknown'')"

definition keyword_table :: "(string \<times> string list) list" where
  \<comment> \<open>the spec's words: the keyword sets in their priority order\<close>
  "keyword_table =
     [(''invoice'', [''invoice'', ''bill'', ''payment'', ''amount'', ''$'']),
      (''form'', [''form'', ''application'', ''request'']),
      (''resume'', [''resume'', ''cv'', ''experience'', ''education'']),
      (''letter'', [''letter'', ''dear'', ''sincerely'']),
      (''memo'', [''memo'', ''memorandum'', ''subject:''])]"

definition occurs_in :: "string \<Rightarrow> string \<Rightarrow> bool" where
  \<comment> \<open>the spec's words: \<open>w\<close> is a substring of \<open>s\<close>\<close>
  "occurs_in w s = (\<exists>before after. s = before @ w @ after)"

definition first_keyword_match :: "string \<Rightarrow> string option" where
  \<comment> \<open>the spec's words: the first category of the priority order one of whose keywords
      occurs in the lower-cased text\<close>
  "first_keyword_match text0 =
     map_option fst
       (List.find (\<lambda>(category, keywords). \<exists>w \<in> set keywords. occurs_in w (lower text0))
          keyword_table)"

section \<open>Model-assisted entity extraction (processor/pipeline.py)\<close>

definition empty_entities :: entities where
  "empty_entities =
     [(''persons'', []), (''organizations'', []), (''locations'', []), (''dates'', []),
      (''amounts'', []), (''emails'', []), (''phones'', []), (''addresses'', [])]"

definition dict_extend :: "string \<Rightarrow> string list \<Rightarrow> entities \<Rightarrow> entities" where
  \<comment> \<open>\<^verbatim>\<open>entities[key].extend(items)\<close>, for a key that is present\<close>
  "dict_extend key items d = map (\<lambda>(k, xs). if k = key then (k, xs @ items) else (k, xs)) d"

definition dict_append :: "string \<Rightarrow> string \<Rightarrow> entities \<Rightarrow> entities" where
  \<comment> \<open>\<^verbatim>\<open>entities[key].append(item)\<close>, for a key that is present\<close>
  "dict_append key item d = dict_extend key [item] d"

definition confidence_threshold :: rat where
  \<comment> \<open>the double that the literal \<^verbatim>\<open>0.8\<close> denotes; a score is the value of its float\<close>
  "confidence_threshold = 3602879701896397 / 4503599627370496"

definition add_ner_entity :: "entities \<Rightarrow> ner_entity \<Rightarrow> entities" where
  \<comment> \<open>the body of the loop over the model's spans\<close>
  "add_ner_entity ents entity =
     (let entity_type = upper (entity_group entity);
          entity_text = strip (word entity);
          confidence = score entity
      in
        if confidence > confidence_threshold then
          if entity_type \<in> set [''PER'', ''PERSON''] then dict_append ''persons'' entity_text ents
          else if entity_type \<in> set [''ORG'', ''ORGANIZATION'']
          then dict_append ''organizations'' entity_text ents
          else if entity_type \<in> set [''LOC'', ''LOCATION'']
          then dict_append ''locations'' entity_text ents
          else if entity_type \<in> set [''MISC''] then
            if any_word_in [''@'', ''email''] (lower entity_text)
            then dict_append ''emails'' entity_text ents
            else if list_ex isdigit entity_text then dict_append ''dates'' entity_text ents
            else ents
          else ents
        else ents)"

definition email_pattern :: string where
  "email_pattern = bs @ ''b[A-Za-z0-9._%+-]+@[A-Za-z0-9.-]+'' @ bs @ ''.[A-Z|a-z]{2,}'' @ bs @ ''b''"

definition phone_pattern :: string where
  "phone_pattern = bs @ ''b(?:'' @ bs @ ''+?1[-.'' @ bs @ ''s]?)?'' @ bs @ ''(?([0-9]{3})'' @ bs @ '')?[-.'' @ bs @ ''s]?([0-9]{3})[-.'' @ bs @ ''s]?([0-9]{4})'' @ bs @ ''b''"

definition money_pattern :: string where
  "money_pattern = bs @ ''$'' @ bs @ ''s*'' @ bs @ ''d+(?:,'' @ bs @ ''d{3})*(?:'' @ bs @ ''.'' @ bs @ ''d{2})?''"

definition clean_up :: "platform \<Rightarrow> entities \<Rightarrow> entities" where
  \<comment> \<open>the last loop: per key \<^verbatim>\<open>list(set(...))\<close>, then the entries whose stripped length
      exceeds 1\<close>
  "clean_up pf ents =
     map (\<lambda>(key, xs). (key, filter (\<lambda>item. length (strip item) > 1) (set_to_list pf xs))) ents"

definition processor_utils_names :: "string list" where
  \<comment> \<open>the names that module processor/utils.py binds: its imports and its functions\<close>
  "processor_utils_names =
     [''os'', ''re'', ''cv2'', ''pytesseract'', ''Image'', ''np'', ''List'', ''Dict'', ''Any'',
      ''extract_text_from_image'', ''clean_text'', ''extract_entities'', ''get_document_files'',
      ''validate_file'']"

definition import_from :: "string list \<Rightarrow> string list \<Rightarrow> exn + unit" where
  \<comment> \<open>\<^verbatim>\<open>from module import n1, n2, ...\<close>: ImportError at the first name the module lacks\<close>
  "import_from module_names names =
     (case filter (\<lambda>n. n \<notin> set module_names) names of
        [] \<Rightarrow> Inr ()
      | n # _ \<Rightarrow> Inl (ImportError n))"

definition fallback_extraction :: "platform \<Rightarrow> string \<Rightarrow> exn + entities" where
  \<comment> \<open>the \<^verbatim>\<open>except\<close> branch: \<^verbatim>\<open>from .utils import extract_entities, ENTITY_PATTERNS\<close>,
      then the regex extractor\<close>
  "fallback_extraction pf text0 =
     (case import_from processor_utils_names [''extract_entities'', ''ENTITY_PATTERNS''] of
        Inl e \<Rightarrow> Inl e
      | Inr _ \<Rightarrow> Inr (extract_entities (\<lambda>pattern s. findall pf pattern True s) text0 ENTITY_PATTERNS))"

definition model_entities :: "platform \<Rightarrow> ner_entity list \<Rightarrow> string \<Rightarrow> entities" where
  \<comment> \<open>the \<^verbatim>\<open>try\<close> block after the model has returned \<open>ner_results\<close>\<close>
  "model_entities pf ner_results text0 =
     (let entities1 = foldl add_ner_entity empty_entities ner_results;
          emails = findall pf email_pattern False text0;
          entities2 = dict_extend ''emails'' emails entities1;
          phones = findall_groups pf phone_pattern False text0;
          entities3 = dict_extend ''phones'' (map (join ''-'') phones) entities2;
          amounts = findall pf money_pattern False text0;
          entities4 = dict_extend ''amounts'' amounts entities3
      in clean_up pf entities4)"

definition extract_entities_with_llm ::
  "platform \<Rightarrow> pipeline \<Rightarrow> string \<Rightarrow> string \<Rightarrow> exn + entities" where
  \<comment> \<open>\<open>Inl\<close>: the exception that leaves the function. An exception of the model call, or
      of reading its output, is the \<open>Inl\<close> of \<open>ner\<close>.\<close>
  "extract_entities_with_llm pf self text0 document_type =
     (case ner_pipeline self of
        None \<Rightarrow> Inr empty_entities
      | Some ner \<Rightarrow>
          if strip text0 = [] then Inr empty_entities
          else
            (case ner (take 512 text0) of
               Inl e \<Rightarrow> fallback_extraction pf text0
             | Inr ner_results \<Rightarrow> Inr (model_entities pf ner_results text0)))"

definition model_call_raises :: "pipeline \<Rightarrow> string \<Rightarrow> bool" where
  \<comment> \<open>the model is called (a pipeline is loaded, the text is not blank) and the call
      raises\<close>
  "model_call_raises self text0 =
     (case ner_pipeline self of
        None \<Rightarrow> False
      | Some ner \<Rightarrow> strip text0 \<noteq> [] \<and> isl (ner (take 512 text0)))"

definition entity_kinds :: "string list" where
  \<comment> \<open>the eight kinds of the model-assisted result, in the order the code lists them\<close>
  "entity_kinds =
     [''persons'', ''organizations'', ''locations'', ''dates'', ''amounts'', ''emails'', ''phones'',
      ''addresses'']"

definition entity_list :: "entities \<Rightarrow> string \<Rightarrow> string list" where
  \<comment> \<open>\<^verbatim>\<open>entities.get(kind, [])\<close>\<close>
  "entity_list ents kind = (case map_of ents kind of Some xs \<Rightarrow> xs | None \<Rightarrow> [])"

definition routed_kind :: "ner_entity \<Rightarrow> string option" where
  \<comment> \<open>the kind under which the loop files a span, if it files it\<close>
  "routed_kind entity =
     (let entity_type = upper (entity_group entity);
          entity_text = strip (word entity)
      in
        if score entity > confidence_threshold then
          if entity_type \<in> set [''PER'', ''PERSON''] then Some ''persons''
          else if entity_type \<in> set [''ORG'', ''ORGANIZATION''] then Some ''organizations''
          else if entity_type \<in> set [''LOC'', ''LOCATION''] then Some ''locations''
          else if entity_type \<in> set [''MISC''] then
            if any_word_in [''@'', ''email''] (lower entity_text) then Some ''emails''
            else if list_ex isdigit entity_text then Some ''dates''
            else None
          else None
        else None)"

section \<open>The orchestrator (processor/utils.py, processor/pipeline.py)\<close>

definition extract_text_from_image :: "platform \<Rightarrow> string \<Rightarrow> string" where
  "extract_text_from_image pf image_path =
     (case ocr_image pf image_path of
        Unreadable \<Rightarrow> []
      | OcrRaised \<Rightarrow> []
      | OcrText t \<Rightarrow> strip t)"

definition metadata_of :: "doc \<Rightarrow> metadata" where
  "metadata_of d =
     \<lparr>md_category = doc_category d, md_filename = doc_filename d,
      md_word_count = doc_word_count d, md_entities = doc_entities d\<rparr>"

definition store_documents :: "pipeline \<Rightarrow> doc list \<Rightarrow> world \<Rightarrow> (exn + unit) \<times> world" where
  "store_documents self documents w =
     (if documents = [] then (Inr (), w)
      else
        let ids = map doc_id documents;
            texts = map doc_text documents;
            metadatas = map metadata_of documents
        in
          (case embedder_encode self texts of
             Inl e \<Rightarrow> (Inl e, w)
           | Inr embeddings \<Rightarrow>
               let request = \<lparr>req_ids = ids, req_documents = texts,
                               req_embeddings = embeddings, req_metadatas = metadatas\<rparr>;
                   w' = w\<lparr>add_calls := add_calls w @ [request]\<rparr>
               in
                 (case collection_add self (add_calls w) request of
                    Some e \<Rightarrow> (Inl e, w')
                  | None \<Rightarrow> (Inr (), w'))))"

definition save_results :: "platform \<Rightarrow> doc list \<Rightarrow> world \<Rightarrow> (exn + unit) \<times> world" where
  "save_results pf documents w =
     (let w' = w\<lparr>save_calls := save_calls w @ [documents]\<rparr> in
        case write_results pf documents of
          Some e \<Rightarrow> (Inl e, w')
        | None \<Rightarrow> (Inr (), w'))"

definition process_single_document ::
  "platform \<Rightarrow> pipeline \<Rightarrow> string \<Rightarrow> world \<Rightarrow> doc option \<times> world" where
  \<comment> \<open>every exception inside is caught and answered with \<^verbatim>\<open>None\<close>\<close>
  "process_single_document pf self file_path w =
     (let text0 = extract_text_from_image pf file_path in
        if text0 = [] \<or> length (strip text0) < 10 then (None, w)
        else
          let cleaned_text = clean_text text0;
              category = classify_document file_path cleaned_text
          in
            (case extract_entities_with_llm pf self cleaned_text category of
               Inl e \<Rightarrow> (None, w)
             | Inr ents \<Rightarrow>
                 let doc_data =
                       \<lparr>doc_id = category @ ''_'' @ basename file_path,
                        doc_filename = basename file_path,
                        doc_file_path = file_path,
                        doc_category = category,
                        doc_text = cleaned_text,
                        doc_entities = ents,
                        doc_word_count = length (split_ws cleaned_text),
                        doc_timestamp = now_isoformat pf (clock w)\<rparr>;
                     w1 = w\<lparr>clock := Suc (clock w)\<rparr>
                 in
                   (case store_documents self [doc_data] w1 of
                      (Inl e, w2) \<Rightarrow> (None, w2)
                    | (Inr u, w2) \<Rightarrow> (Some doc_data, w2))))"

fun process_files :: "platform \<Rightarrow> pipeline \<Rightarrow> string list \<Rightarrow> world \<Rightarrow> doc list \<times> world" where
  \<comment> \<open>the loop of \<^verbatim>\<open>process_documents\<close>: the records of the files that succeeded, in order\<close>
  "process_files pf self [] w = ([], w)"
| "process_files pf self (file_path # files) w =
     (case process_single_document pf self file_path w of
        (None, w1) \<Rightarrow> process_files pf self files w1
      | (Some doc_data, w1) \<Rightarrow>
          (case process_files pf self files w1 of
             (docs, w2) \<Rightarrow> (doc_data # docs, w2)))"

definition slice_to :: "int \<Rightarrow> 'a list \<Rightarrow> 'a list" where
  \<comment> \<open>\<^verbatim>\<open>xs[:n]\<close>; a negative \<open>n\<close> counts from the end\<close>
  "slice_to n xs = (if 0 \<le> n then take (nat n) xs else take (length xs - nat (- n)) xs)"

definition process_documents ::
  "platform \<Rightarrow> pipeline \<Rightarrow> string list \<Rightarrow> int \<Rightarrow> world \<Rightarrow> (exn + doc list) \<times> world" where
  \<comment> \<open>\<open>found\<close> is what \<^verbatim>\<open>get_document_files(data_path)\<close> lists\<close>
  "process_documents pf self found limit w =
     (let files = slice_to limit found in
        case process_files pf self files w of
          (processed_docs, w1) \<Rightarrow>
            if processed_docs \<noteq> [] then
              (case store_documents self processed_docs w1 of
                 (Inl e, w2) \<Rightarrow> (Inl e, w2)
               | (Inr u, w2) \<Rightarrow>
                   (case save_results pf processed_docs w2 of
                      (Inl e, w3) \<Rightarrow> (Inl e, w3)
                    | (Inr u', w3) \<Rightarrow> (Inr processed_docs, w3)))
            else (Inr [], w1))"

definition passes_ocr :: "platform \<Rightarrow> string \<Rightarrow> bool" where
  \<comment> \<open>the file's OCR text is neither empty nor shorter than 10 characters once stripped\<close>
  "passes_ocr pf file_path =
     (let text0 = extract_text_from_image pf file_path in
        text0 \<noteq> [] \<and> 10 \<le> length (strip text0))"

definition single_request :: "doc \<Rightarrow> add_request \<Rightarrow> bool" where
  \<comment> \<open>the request submits the one record \<open>d\<close>\<close>
  "single_request d request =
     (req_ids request = [doc_id d] \<and> req_documents request = [doc_text d] \<and>
      req_metadatas request = [metadata_of d])"

fun all_raised :: "pipeline \<Rightarrow> add_request list \<Rightarrow> add_request list \<Rightarrow> bool" where
  \<comment> \<open>each of the requests, submitted in turn after the \<open>earlier\<close> ones, made
      \<^verbatim>\<open>collection.add\<close> raise\<close>
  "all_raised self earlier [] = True"
| "all_raised self earlier (request # later) =
     (collection_add self earlier request \<noteq> None \<and>
      all_raised self (earlier @ [request]) later)"

section \<open>The upload endpoint's confidence score (processor/views.py)\<close>

definition calculate_confidence :: "doc \<Rightarrow> rat" where
  "calculate_confidence doc_data =
     (let confidence0 = 5 / 10;
          text_length = length (doc_text doc_data);
          confidence1 = (if text_length > 100 then confidence0 + 2 / 10 else confidence0);
          confidence2 = (if text_length > 500 then confidence1 + 1 / 10 else confidence1);
          total_entities = sum_list (map (\<lambda>(key, values). length values) (doc_entities doc_data));
          confidence3 = (if total_entities > 0 then confidence2 + 1 / 10 else confidence2);
          confidence4 = (if total_entities > 3 then confidence3 + 1 / 10 else confidence3);
          confidence5 = (if doc_category doc_data \<noteq> ''unknown'' then confidence4 + 1 / 10
                         else confidence4)
      in min confidence5 (95 / 100))"

section \<open>Concrete inputs\<close>

text \<open>Small instances of the collaborators, on which the definitions are evaluated.\<close>

definition demo_findall :: "string \<Rightarrow> string \<Rightarrow> string list" where
  \<comment> \<open>a regex engine that knows one pattern\<close>
  "demo_findall pattern s =
     (if pattern = ''[a-z]+'' then [''to'', ''be'', ''or'', ''not'', ''to'', ''be''] else [])"

definition other_findall :: "string \<Rightarrow> string \<Rightarrow> string list" where
  \<comment> \<open>an engine that answers as \<open>demo_findall\<close> does on one text only\<close>
  "other_findall pattern s =
     (if s = ''to be or not to be'' then demo_findall pattern s else [''?''])"

definition demo_platform :: platform where
  "demo_platform =
     \<lparr>findall = (\<lambda>pattern ignorecase s.
        if pattern = email_pattern then [''jane@example.com'', ''jane@example.com'']
        else if pattern = money_pattern then [''$1,250.00'']
        else []),
      findall_groups = (\<lambda>pattern ignorecase s.
        if pattern = phone_pattern then [[''555'', ''123'', ''4567'']] else []),
      set_to_list = remdups,
      ocr_image = (\<lambda>path.
        if path = ''data/letter/a.jpg'' then OcrText ''Dear Jane Roe, thank you''
        else if path = ''data/letter/b.jpg'' then OcrText ''  ''
        else if path = ''data/letter/d.jpg'' then OcrText ''Dear John Doe, many thanks''
        else Unreadable),
      now_isoformat = (\<lambda>n. ''2024-01-01T00:00:00''),
      write_results = (\<lambda>documents. None)\<rparr>"

definition demo_ner :: "string \<Rightarrow> exn + ner_entity list" where
  "demo_ner s =
     Inr [\<lparr>entity_group = ''PER'', word = ''Jane Roe'', score = 99 / 100\<rparr>,
          \<lparr>entity_group = ''ORG'', word = ''Acme'', score = confidence_threshold\<rparr>]"

definition demo_pipeline :: pipeline where
  "demo_pipeline =
     \<lparr>ner_pipeline = Some demo_ner,
      embedder_encode = (\<lambda>texts. Inr (map (\<lambda>t. [0]) texts)),
      collection_add = (\<lambda>earlier request. None)\<rparr>"

definition failing_ner :: "string \<Rightarrow> exn + ner_entity list" where
  "failing_ner s = Inl (LibraryError ''timeout'')"

definition demo_world :: world where
  "demo_world = \<lparr>add_calls = [], save_calls = [], clock = 0\<rparr>"

definition rejecting_pipeline :: pipeline where
  \<comment> \<open>a pipeline without NER model whose vector store refuses every request\<close>
  "rejecting_pipeline =
     \<lparr>ner_pipeline = None,
      embedder_encode = (\<lambda>texts. Inr (map (\<lambda>t. [0]) texts)),
      collection_add = (\<lambda>earlier request. Some (LibraryError ''store unavailable''))\<rparr>"

definition demo_doc :: doc where
  "demo_doc =
     \<lparr>doc_id = ''letter_a.jpg'', doc_filename = ''a.jpg'', doc_file_path = ''data/letter/a.jpg'',
      doc_category = ''letter'', doc_text = ''Dear Jane Roe, thank you'',
      doc_entities =
        [(''persons'', [''Jane Roe'']), (''organizations'', []), (''locations'', []), (''dates'', []),
         (''amounts'', [''$1,250.00'']), (''emails'', [''jane@example.com'']),
         (''phones'', [''555-123-4567'']), (''addresses'', [])],
      doc_word_count = 5, doc_timestamp = ''2024-01-01T00:00:00''\<rparr>"

definition demo_files :: "string list" where
  "demo_files = [''data/letter/a.jpg'', ''data/letter/b.jpg'', ''data/letter/c.jpg'']"

definition unloaded_pipeline :: pipeline where
  \<comment> \<open>the pipeline after its NER model failed to load\<close>
  "unloaded_pipeline = demo_pipeline\<lparr>ner_pipeline := None\<rparr>"

definition batch_failing_pipeline :: pipeline where
  \<comment> \<open>a pipeline whose embedder encodes one text and raises on a longer batch\<close>
  "batch_failing_pipeline =
     unloaded_pipeline\<lparr>embedder_encode := (\<lambda>texts.
        if length texts \<le> 1 then Inr (map (\<lambda>t. [0]) texts)
        else Inl (LibraryError ''out of memory''))\<rparr>"

definition two_emails :: "string \<Rightarrow> string \<Rightarrow> string list" where
  \<comment> \<open>a regex engine that finds two addresses, in the order of the text\<close>
  "two_emails pattern s =
     (if pattern = email_pattern \<and> s = ''b@x.io, a@x.io'' then [''b@x.io'', ''a@x.io''] else [])"

definition reversed_set_order :: "string list \<Rightarrow> string list" where
  \<comment> \<open>a set order that lists each element once, last-seen first\<close>
  "reversed_set_order xs = rev (remdups xs)"

section \<open>Properties of the text cleaner\<close>

text \<open>
  C4 (the claim: \<open>clean_text\<close> is idempotent and total). The function is total, but it is
  not idempotent: whitespace runs are collapsed before the disallowed characters are
  deleted, so deleting a character that stands between two spaces leaves a double space,
  which only a second application collapses.
\<close>

theorem clean_text_twice_differs:
  "clean_text ''ab # cd'' = ''ab  cd'' \<and> clean_text (clean_text ''ab # cd'') = ''ab cd''"
  by code_simp

lemma isspace_space: "isspace (CHR '' '')"
  by (simp add: isspace_def)

lemma sub_whitespace_hd:
  "\<not> isspace c \<Longrightarrow> sub_whitespace (c # cs) = c # sub_whitespace cs"
  by simp

lemma collapsed_Cons:
  "collapsed (c # cs) \<longleftrightarrow>
   (if isspace c then c = CHR '' '' \<and> (cs = [] \<or> \<not> isspace (hd cs)) else True) \<and> collapsed cs"
  by (cases cs) (auto split: if_splits)

lemma dropWhile_hd: "dropWhile P xs = [] \<or> \<not> P (hd (dropWhile P xs))"
  by (metis hd_dropWhile)

lemma hd_sub_whitespace:
  "xs \<noteq> [] \<Longrightarrow> \<not> isspace (hd xs) \<Longrightarrow> sub_whitespace xs \<noteq> [] \<and> hd (sub_whitespace xs) = hd xs"
  by (cases xs) auto

lemma sub_whitespace_Nil_iff: "sub_whitespace xs = [] \<longleftrightarrow> xs = []"
  by (cases xs) auto

lemma collapsed_sub_whitespace: "collapsed (sub_whitespace s)"
proof (induction s rule: sub_whitespace.induct)
  case 1
  then show ?case by simp
next
  case (2 c cs)
  show ?case
  proof (cases "isspace c")
    case True
    let ?r = "dropWhile isspace cs"
    from True 2 have IH: "collapsed (sub_whitespace ?r)" by simp
    define r where "r = dropWhile isspace cs"
    have "r = [] \<or> \<not> isspace (hd r)"
      unfolding r_def by (rule dropWhile_hd)
    then have "sub_whitespace r = [] \<or> \<not> isspace (hd (sub_whitespace r))"
      using hd_sub_whitespace [of r] by (cases "r = []") auto
    with True IH show ?thesis
      by (simp add: collapsed_Cons r_def)
  next
    case False
    with 2 have IH: "collapsed (sub_whitespace cs)" by simp
    with False show ?thesis
      by (simp add: collapsed_Cons)
  qed
qed

lemma sub_whitespace_collapsed: "collapsed s \<Longrightarrow> sub_whitespace s = s"
proof (induction s rule: sub_whitespace.induct)
  case 1
  then show ?case by simp
next
  case (2 c cs)
  from "2.prems" have tl: "collapsed cs"
    by (simp add: collapsed_Cons)
  show ?case
  proof (cases "isspace c")
    case True
    with "2.prems" have c: "c = CHR '' ''" and h: "cs = [] \<or> \<not> isspace (hd cs)"
      by (simp_all add: collapsed_Cons)
    from h have d: "dropWhile isspace cs = cs"
      by (cases cs) auto
    from "2.IH"(1) [OF True] tl d have "sub_whitespace cs = cs" by simp
    with True c d show ?thesis by simp
  next
    case False
    with "2.IH"(2) tl show ?thesis by simp
  qed
qed

lemma collapsed_dropWhile: "collapsed s \<Longrightarrow> collapsed (dropWhile P s)"
  by (induction s) (auto simp: collapsed_Cons)

lemma collapsed_take: "collapsed s \<Longrightarrow> collapsed (take n s)"
proof (induction s arbitrary: n)
  case Nil
  then show ?case by simp
next
  case (Cons c cs)
  show ?case
  proof (cases n)
    case 0
    then show ?thesis by simp
  next
    case (Suc m)
    from Cons.prems have "collapsed cs" by (simp add: collapsed_Cons)
    then have t: "collapsed (take m cs)" by (rule Cons.IH)
    have "take m cs = [] \<or> hd (take m cs) = hd cs"
      by (cases m; cases cs) auto
    with Cons.prems t Suc show ?thesis
      by (auto simp: collapsed_Cons)
  qed
qed

lemma rstrip_take: "rev (dropWhile P (rev s)) = take (length (dropWhile P (rev s))) s"
proof -
  have "rev s = takeWhile P (rev s) @ dropWhile P (rev s)"
    by simp
  then have "s = rev (dropWhile P (rev s)) @ rev (takeWhile P (rev s))"
    by (metis rev_append rev_rev_ident)
  then show ?thesis
    by (metis append_eq_conv_conj length_rev)
qed

lemma collapsed_strip: "collapsed s \<Longrightarrow> collapsed (strip s)"
  unfolding strip_def
  by (subst rstrip_take) (intro collapsed_take collapsed_dropWhile)

lemma strip_idem: "strip (strip s) = strip s"
proof -
  define v where "v = dropWhile isspace s"
  define w where "w = rev (dropWhile isspace (rev v))"
  have v: "v = [] \<or> \<not> isspace (hd v)"
    unfolding v_def by (rule dropWhile_hd)
  have w: "w = take (length (dropWhile isspace (rev v))) v"
    unfolding w_def by (rule rstrip_take)
  have "dropWhile isspace w = w"
  proof (cases w)
    case Nil
    then show ?thesis by simp
  next
    case (Cons a u)
    with w have "v \<noteq> []" by auto
    with v have h: "\<not> isspace (hd v)" by simp
    from Cons w have "hd w = hd v"
      by (metis hd_take take_eq_Nil gr0I list.distinct(1))
    with h Cons show ?thesis by simp
  qed
  then have "rev (dropWhile isspace (rev (dropWhile isspace w))) = rev (dropWhile isspace (rev w))"
    by simp
  also have "\<dots> = w"
    by (simp add: w_def)
  finally show ?thesis
    by (simp add: strip_def w_def v_def)
qed

text \<open>
  The cleaner of the standalone script, which collapses the whitespace and strips and
  deletes nothing afterwards, is idempotent.
\<close>

lemma clean_text_standalone_idempotent:
  "clean_text_standalone (clean_text_standalone t) = clean_text_standalone t"
proof (cases "t = [] \<or> strip (sub_whitespace t) = []")
  case True
  then show ?thesis by (auto simp: clean_text_standalone_def)
next
  case False
  have "collapsed (strip (sub_whitespace t))"
    by (intro collapsed_strip collapsed_sub_whitespace)
  then have "sub_whitespace (strip (sub_whitespace t)) = strip (sub_whitespace t)"
    by (rule sub_whitespace_collapsed)
  with False show ?thesis
    by (simp add: clean_text_standalone_def strip_idem)
qed

section \<open>Properties of the regex extractor\<close>

lemma fromkeys_from_dedup:
  "fromkeys_from keys xs = keys @ dedup_first (filter (\<lambda>x. x \<notin> set keys) xs)"
proof (induction xs arbitrary: keys)
  case Nil
  then show ?case by simp
next
  case (Cons x xs)
  show ?case
  proof (cases "x \<in> set keys")
    case True
    then show ?thesis by (simp add: Cons.IH)
  next
    case False
    have "removeAll x (filter (\<lambda>y. y \<notin> set keys) xs) =
          filter (\<lambda>y. y \<notin> set (keys @ [x])) xs"
      by (induction xs) auto
    with False show ?thesis by (simp add: Cons.IH)
  qed
qed

lemma fromkeys_dedup: "fromkeys xs = dedup_first xs"
  by (simp add: fromkeys_def fromkeys_from_dedup)

lemma set_dedup_first: "set (dedup_first xs) = set xs"
  by (induction xs rule: dedup_first.induct) auto

lemma distinct_dedup_first: "distinct (dedup_first xs)"
  by (induction xs rule: dedup_first.induct) (auto simp: set_dedup_first)

lemma dedup_first_Nil_iff: "dedup_first xs = [] \<longleftrightarrow> xs = []"
  by (cases xs) auto


lemma dict_set_fresh: "k \<notin> fst ` set d \<Longrightarrow> dict_set k v d = d @ [(k, v)]"
  by (induction d) auto

lemma extract_entities_from_spec:
  "distinct (map fst patterns) \<Longrightarrow> fst ` set entities \<inter> fst ` set patterns = {} \<Longrightarrow>
   extract_entities_from fa text0 patterns entities = entities @ entities_spec fa text0 patterns"
proof (induction patterns arbitrary: entities)
  case Nil
  then show ?case by (simp add: entities_spec_def)
next
  case (Cons a rest)
  obtain entity_type pattern_list where a: "a = (entity_type, pattern_list)"
    by (cases a)
  from Cons.prems a have fresh: "entity_type \<notin> fst ` set entities"
    by auto
  from Cons.prems a have d: "distinct (map fst rest)" and nk: "entity_type \<notin> fst ` set rest"
    by auto
  show ?case
  proof (cases "find_matches fa text0 pattern_list = []")
    case True
    from Cons.prems have "fst ` set entities \<inter> fst ` set rest = {}"
      by auto
    from Cons.IH [OF d this] True a show ?thesis
      by (simp add: entities_spec_def)
  next
    case False
    let ?e = "entities @ [(entity_type, fromkeys (find_matches fa text0 pattern_list))]"
    from Cons.prems nk have "fst ` set ?e \<inter> fst ` set rest = {}"
      by auto
    from Cons.IH [OF d this] False a fresh show ?thesis
      by (simp add: entities_spec_def dict_set_fresh fromkeys_dedup)
  qed
qed

lemma extract_entities_spec:
  "distinct (map fst patterns) \<Longrightarrow> extract_entities fa text0 patterns = entities_spec fa text0 patterns"
  using extract_entities_from_spec [of patterns "[]" fa text0]
  by (simp add: extract_entities_def)

lemma find_matches_cong:
  "\<forall>pattern \<in> set pattern_list. fb pattern text0 = fa pattern text0 \<Longrightarrow>
   find_matches fb text0 pattern_list = find_matches fa text0 pattern_list"
  by (induction pattern_list) (auto simp: find_matches_def)

lemma extract_entities_from_cong:
  "\<forall>(entity_type, pattern_list) \<in> set patterns. \<forall>pattern \<in> set pattern_list. fb pattern text0 = fa pattern text0 \<Longrightarrow>
   extract_entities_from fb text0 patterns entities = extract_entities_from fa text0 patterns entities"
proof (induction patterns arbitrary: entities)
  case Nil
  then show ?case by simp
next
  case (Cons a rest)
  obtain entity_type pattern_list where a: "a = (entity_type, pattern_list)"
    by (cases a)
  from Cons.prems a have "find_matches fb text0 pattern_list = find_matches fa text0 pattern_list"
    by (intro find_matches_cong) auto
  moreover from Cons.prems have "\<forall>(entity_type, pattern_list) \<in> set rest. \<forall>pattern \<in> set pattern_list. fb pattern text0 = fa pattern text0"
    by auto
  ultimately show ?case using a Cons.IH by simp
qed

lemma extract_entities_standalone_from_spec:
  "distinct (map fst table) \<Longrightarrow> fst ` set entities \<inter> fst ` set table = {} \<Longrightarrow>
   extract_entities_standalone_from fs to_list text0 table entities =
     entities @ map (\<lambda>(kind, pattern). (kind, to_list (fs pattern text0)))
       (filter (\<lambda>(kind, pattern). fs pattern text0 \<noteq> []) table)"
proof (induction table arbitrary: entities)
  case Nil
  then show ?case by simp
next
  case (Cons a rest)
  obtain entity_type pattern where a: "a = (entity_type, pattern)"
    by (cases a)
  from Cons.prems a have fresh: "entity_type \<notin> fst ` set entities"
    by auto
  from Cons.prems a have d: "distinct (map fst rest)" and nk: "entity_type \<notin> fst ` set rest"
    by auto
  show ?case
  proof (cases "fs pattern text0 = []")
    case True
    from Cons.prems have "fst ` set entities \<inter> fst ` set rest = {}"
      by auto
    from Cons.IH [OF d this] True a show ?thesis by simp
  next
    case False
    let ?e = "entities @ [(entity_type, to_list (fs pattern text0))]"
    from Cons.prems nk have "fst ` set ?e \<inter> fst ` set rest = {}"
      by auto
    from Cons.IH [OF d this] False a fresh show ?thesis
      by (simp add: dict_set_fresh)
  qed
qed

lemma distinct_standalone_kinds: "distinct (map fst ENTITY_PATTERNS_standalone)"
  by (simp add: ENTITY_PATTERNS_standalone_def)

lemma extract_entities_standalone_spec:
  "extract_entities_standalone fs to_list text0 =
     map (\<lambda>(kind, pattern). (kind, to_list (fs pattern text0)))
       (filter (\<lambda>(kind, pattern). fs pattern text0 \<noteq> []) ENTITY_PATTERNS_standalone)"
  using extract_entities_standalone_from_spec [OF distinct_standalone_kinds, of "[]" fs to_list text0]
  by (simp add: extract_entities_standalone_def)

lemma reversed_set_order_admissible: "set_semantics reversed_set_order"
  by (simp add: set_semantics_def reversed_set_order_def)

text \<open>
  C8, as the code has it. The regex extractor of processor/utils.py returns, on a pattern
  table (a dict: its keys are distinct), per entity kind with at least one match all
  matches of the kind's patterns deduplicated in first-seen order, and nothing else; its
  result is determined by the text, the table and the matches the regex engine reports
  for the table's patterns on this text. The extractor of the standalone utils.py, over
  its fixed table, returns per kind with at least one match the kind's matches as Python
  lists their set: each value once, in an order determined by the interpreter's hash set
  and not by the text.
\<close>

theorem regex_extraction_values:
  assumes "distinct (map fst patterns)" and "set_semantics to_list"
  shows "extract_entities fa text0 patterns = entities_spec fa text0 patterns \<and>
         (\<forall>fb. (\<forall>(entity_type, pattern_list) \<in> set patterns. \<forall>pattern \<in> set pattern_list.
                  fb pattern text0 = fa pattern text0) \<longrightarrow>
               extract_entities fb text0 patterns = extract_entities fa text0 patterns) \<and>
         extract_entities_standalone fs to_list text0 =
           map (\<lambda>(kind, pattern). (kind, to_list (fs pattern text0)))
             (filter (\<lambda>(kind, pattern). fs pattern text0 \<noteq> []) ENTITY_PATTERNS_standalone) \<and>
         (\<forall>pattern. distinct (to_list (fs pattern text0)) \<and>
            set (to_list (fs pattern text0)) = set (fs pattern text0))"
proof (intro conjI)
  from assms(1) show "extract_entities fa text0 patterns = entities_spec fa text0 patterns"
    by (rule extract_entities_spec)
  show "\<forall>fb. (\<forall>(entity_type, pattern_list) \<in> set patterns. \<forall>pattern \<in> set pattern_list.
                  fb pattern text0 = fa pattern text0) \<longrightarrow>
               extract_entities fb text0 patterns = extract_entities fa text0 patterns"
    unfolding extract_entities_def by (intro allI impI extract_entities_from_cong)
  show "extract_entities_standalone fs to_list text0 =
           map (\<lambda>(kind, pattern). (kind, to_list (fs pattern text0)))
             (filter (\<lambda>(kind, pattern). fs pattern text0 \<noteq> []) ENTITY_PATTERNS_standalone)"
    by (rule extract_entities_standalone_spec)
  from assms(2) show "\<forall>pattern. distinct (to_list (fs pattern text0)) \<and>
            set (to_list (fs pattern text0)) = set (fs pattern text0)"
    by (simp add: set_semantics_def)
qed

text \<open>
  C8 as stated (every value list in first-seen order) fails for the standalone extractor:
  it deduplicates through a set, and where the set lists the second address first the
  result is not in the order of the text.
\<close>

theorem standalone_extraction_reorders:
  "two_emails email_pattern ''b@x.io, a@x.io'' = [''b@x.io'', ''a@x.io''] \<and>
   dedup_first (two_emails email_pattern ''b@x.io, a@x.io'') = [''b@x.io'', ''a@x.io''] \<and>
   extract_entities_standalone two_emails reversed_set_order ''b@x.io, a@x.io'' =
     [(''email'', [''a@x.io'', ''b@x.io''])]"
  by code_simp

theorem regex_extraction_values_witness:
  "distinct (map fst [(''word'', [''[a-z]+'']), (''digit'', [''[0-9]''])]) \<and>
   set_semantics reversed_set_order \<and>
   extract_entities demo_findall ''to be or not to be'' [(''word'', [''[a-z]+'']), (''digit'', [''[0-9]''])] =
     [(''word'', [''to'', ''be'', ''or'', ''not''])] \<and>
   extract_entities other_findall ''to be or not to be'' [(''word'', [''[a-z]+'']), (''digit'', [''[0-9]''])] =
     extract_entities demo_findall ''to be or not to be'' [(''word'', [''[a-z]+'']), (''digit'', [''[0-9]''])] \<and>
   extract_entities_standalone two_emails reversed_set_order ''b@x.io, a@x.io'' =
     [(''email'', [''a@x.io'', ''b@x.io''])] \<and>
   set [''a@x.io'', ''b@x.io''] = set (two_emails email_pattern ''b@x.io, a@x.io'')"
proof -
  have d: "distinct (map fst [(''word'', [''[a-z]+'']), (''digit'', [''[0-9]''])])"
    by simp
  note a = reversed_set_order_admissible
  note t = regex_extraction_values [OF d a, of demo_findall "''to be or not to be''" two_emails]
  have e: "extract_entities_standalone two_emails reversed_set_order ''b@x.io, a@x.io'' =
     [(''email'', [''a@x.io'', ''b@x.io''])]"
    by code_simp
  have m: "two_emails email_pattern ''b@x.io, a@x.io'' = [''b@x.io'', ''a@x.io'']"
    by code_simp
  from t have "extract_entities demo_findall ''to be or not to be''
      [(''word'', [''[a-z]+'']), (''digit'', [''[0-9]''])] = [(''word'', [''to'', ''be'', ''or'', ''not''])]"
    by (simp add: entities_spec_def find_matches_def demo_findall_def)
  moreover have "extract_entities other_findall ''to be or not to be''
      [(''word'', [''[a-z]+'']), (''digit'', [''[0-9]''])] =
     extract_entities demo_findall ''to be or not to be'' [(''word'', [''[a-z]+'']), (''digit'', [''[0-9]''])]"
    by (rule t [THEN conjunct2, THEN conjunct1, rule_format]) (simp add: other_findall_def)
  moreover have "set [''a@x.io'', ''b@x.io''] = set (two_emails email_pattern ''b@x.io, a@x.io'')"
    unfolding m by auto
  ultimately show ?thesis using d a e by (intro conjI)
qed

section \<open>Properties of the confidence score\<close>

text \<open>
  C9: the confidence score lies in the closed interval from 0.5 to 0.95; it is 0.5 plus
  the increments for the text length, the number of extracted entities and a category
  other than \<open>unknown\<close>, capped at 0.95. (The arithmetic is exact: the score is a
  rational number.)
\<close>

theorem calculate_confidence_bounds:
  "1 / 2 \<le> calculate_confidence d \<and> calculate_confidence d \<le> 95 / 100 \<and>
   calculate_confidence d =
     min (5 / 10
          + (if length (doc_text d) > 100 then 2 / 10 else 0)
          + (if length (doc_text d) > 500 then 1 / 10 else 0)
          + (if sum_list (map (\<lambda>(key, values). length values) (doc_entities d)) > 0 then 1 / 10 else 0)
          + (if sum_list (map (\<lambda>(key, values). length values) (doc_entities d)) > 3 then 1 / 10 else 0)
          + (if doc_category d \<noteq> ''unknown'' then 1 / 10 else 0))
         (95 / 100)"
proof -
  define n where "n = sum_list (map (\<lambda>(key, values). length values) (doc_entities d))"
  define l where "l = length (doc_text d)"
  define u where "u = (doc_category d \<noteq> ''unknown'')"
  have eq: "calculate_confidence d =
    min (5 / 10 + (if l > 100 then 2 / 10 else 0) + (if l > 500 then 1 / 10 else 0)
         + (if n > 0 then 1 / 10 else 0) + (if n > 3 then 1 / 10 else 0)
         + (if u then 1 / 10 else 0)) (95 / 100)"
    unfolding calculate_confidence_def Let_def n_def [symmetric] l_def [symmetric] u_def [symmetric]
    by (cases "l > 100"; cases "l > 500"; cases "n > 0"; cases "n > 3"; cases u) simp_all
  have "1 / 2 \<le> calculate_confidence d" "calculate_confidence d \<le> 95 / 100"
    unfolding eq by (cases "l > 100"; cases "l > 500"; cases "n > 0"; cases "n > 3"; cases u; simp)+
  with eq show ?thesis
    unfolding n_def l_def u_def by simp
qed


section \<open>Properties of the model-assisted extractor\<close>

lemma fallback_extraction_raises: "fallback_extraction pf text0 = Inl (ImportError ''ENTITY_PATTERNS'')"
  by (simp add: fallback_extraction_def import_from_def processor_utils_names_def)

text \<open>
  C1 (the claim: when the model call raises, the regex-only result is returned). The
  \<^verbatim>\<open>except\<close> branch imports \<open>ENTITY_PATTERNS\<close> from processor/utils.py, a module that
  does not bind the name (processor/config.py does), so the import raises and the
  function leaves with ImportError instead of returning the regex-only result.
\<close>

theorem model_failure_raises_import_error:
  "model_call_raises self text0 \<Longrightarrow>
   extract_entities_with_llm pf self text0 document_type = Inl (ImportError ''ENTITY_PATTERNS'')"
  by (auto simp: model_call_raises_def extract_entities_with_llm_def fallback_extraction_raises
      isl_def split: option.splits)

theorem model_failure_raises_import_error_witness:
  "model_call_raises (demo_pipeline\<lparr>ner_pipeline := Some failing_ner\<rparr>) ''Dear Jane Roe, thank you'' \<and>
   extract_entities_with_llm demo_platform (demo_pipeline\<lparr>ner_pipeline := Some failing_ner\<rparr>)
     ''Dear Jane Roe, thank you'' ''letter'' = Inl (ImportError ''ENTITY_PATTERNS'')"
proof -
  have h: "model_call_raises (demo_pipeline\<lparr>ner_pipeline := Some failing_ner\<rparr>) ''Dear Jane Roe, thank you''"
    by (simp add: model_call_raises_def failing_ner_def strip_def isspace_def)
  from h model_failure_raises_import_error [OF h] show ?thesis by simp
qed


section \<open>Properties of the classifier\<close>

lemma contains_occurs_in: "contains w s \<longleftrightarrow> occurs_in w s"
proof (induction s)
  case Nil
  then show ?case by (auto simp: occurs_in_def)
next
  case (Cons c cs)
  have "occurs_in w (c # cs) \<longleftrightarrow> prefix w (c # cs) \<or> occurs_in w cs"
    unfolding occurs_in_def sublist_def [symmetric] by (rule sublist_Cons_right)
  with Cons show ?case by simp
qed

lemma keyword_find:
  "List.find (\<lambda>(category, keywords). \<exists>w \<in> set keywords. occurs_in w s) keyword_table =
   (if any_word_in [''invoice'', ''bill'', ''payment'', ''amount'', ''$''] s then Some (keyword_table ! 0)
    else if any_word_in [''form'', ''application'', ''request''] s then Some (keyword_table ! 1)
    else if any_word_in [''resume'', ''cv'', ''experience'', ''education''] s then Some (keyword_table ! 2)
    else if any_word_in [''letter'', ''dear'', ''sincerely''] s then Some (keyword_table ! 3)
    else if any_word_in [''memo'', ''memorandum'', ''subject:''] s then Some (keyword_table ! 4)
    else None)"
  by (simp add: keyword_table_def any_word_in_def contains_occurs_in)

lemma classify_by_keywords:
  "List.find (\<lambda>part. part \<in> set DOCUMENT_CATEGORIES) (py_split os_sep file_path) = None \<Longrightarrow>
   classify_document file_path text0 =
     (case first_keyword_match text0 of Some category \<Rightarrow> category | None \<Rightarrow> ''unknown'')"
  by (simp add: classify_document_def first_keyword_match_def keyword_find Let_def)
     (simp add: keyword_table_def)

lemma classify_by_path:
  assumes "i < length (py_split os_sep file_path)"
    and "py_split os_sep file_path ! i \<in> set DOCUMENT_CATEGORIES"
    and "\<forall>j < i. py_split os_sep file_path ! j \<notin> set DOCUMENT_CATEGORIES"
  shows "classify_document file_path text0 = py_split os_sep file_path ! i"
proof -
  from assms have "List.find (\<lambda>part. part \<in> set DOCUMENT_CATEGORIES) (py_split os_sep file_path) =
      Some (py_split os_sep file_path ! i)"
    unfolding find_Some_iff by blast
  then show ?thesis by (simp add: classify_document_def)
qed

text \<open>
  C5: the first path component that is an entry of the category list is the result,
  whatever the text; when no component is one, the result is the first category, in the
  order invoice, form, resume, letter, memo, one of whose keywords occurs in the
  lower-cased text, and \<open>unknown\<close> when there is none. The function is total and its
  result is a category or \<open>unknown\<close>.
\<close>

theorem classify_document_spec:
  "(\<forall>i < length (py_split os_sep file_path).
      py_split os_sep file_path ! i \<in> set DOCUMENT_CATEGORIES \<and>
      (\<forall>j < i. py_split os_sep file_path ! j \<notin> set DOCUMENT_CATEGORIES) \<longrightarrow>
      classify_document file_path text0 = py_split os_sep file_path ! i) \<and>
   ((\<forall>part \<in> set (py_split os_sep file_path). part \<notin> set DOCUMENT_CATEGORIES) \<longrightarrow>
      classify_document file_path text0 =
        (case first_keyword_match text0 of Some category \<Rightarrow> category | None \<Rightarrow> ''unknown'')) \<and>
   classify_document file_path text0 \<in> set (''unknown'' # DOCUMENT_CATEGORIES)"
proof (intro conjI allI impI)
  fix i
  assume "i < length (py_split os_sep file_path)"
    and "py_split os_sep file_path ! i \<in> set DOCUMENT_CATEGORIES \<and>
      (\<forall>j < i. py_split os_sep file_path ! j \<notin> set DOCUMENT_CATEGORIES)"
  then show "classify_document file_path text0 = py_split os_sep file_path ! i"
    by (intro classify_by_path) auto
next
  assume "\<forall>part \<in> set (py_split os_sep file_path). part \<notin> set DOCUMENT_CATEGORIES"
  then have "List.find (\<lambda>part. part \<in> set DOCUMENT_CATEGORIES) (py_split os_sep file_path) = None"
    by (simp add: find_None_iff)
  then show "classify_document file_path text0 =
        (case first_keyword_match text0 of Some category \<Rightarrow> category | None \<Rightarrow> ''unknown'')"
    by (rule classify_by_keywords)
next
  show "classify_document file_path text0 \<in> set (''unknown'' # DOCUMENT_CATEGORIES)"
  proof (cases "List.find (\<lambda>part. part \<in> set DOCUMENT_CATEGORIES) (py_split os_sep file_path)")
    case None
    then show ?thesis
      by (simp add: classify_document_def Let_def DOCUMENT_CATEGORIES_def)
  next
    case (Some part)
    then have "part \<in> set DOCUMENT_CATEGORIES"
      unfolding find_Some_iff by auto
    with Some show ?thesis by (simp add: classify_document_def)
  qed
qed


theorem classify_document_spec_witness:
  "py_split os_sep ''data/invoice/img001.jpg'' = [''data'', ''invoice'', ''img001.jpg''] \<and>
   classify_document ''data/invoice/img001.jpg'' ''Dear Sir'' = ''invoice'' \<and>
   py_split os_sep ''scans/img002.jpg'' = [''scans'', ''img002.jpg''] \<and>
   classify_document ''scans/img002.jpg'' ''Dear Sir'' = ''letter''"
proof -
  have p1: "py_split os_sep ''data/invoice/img001.jpg'' = [''data'', ''invoice'', ''img001.jpg'']"
    by code_simp
  have p2: "py_split os_sep ''scans/img002.jpg'' = [''scans'', ''img002.jpg'']"
    by code_simp
  have l: "lower ''Dear Sir'' = ''dear sir''"
    by code_simp
  have k: "first_keyword_match ''Dear Sir'' = Some ''letter''"
    unfolding first_keyword_match_def keyword_find l
    by (simp add: any_word_in_def keyword_table_def)
  note s1 = classify_document_spec [of "''data/invoice/img001.jpg''" "''Dear Sir''", unfolded p1]
  note s2 = classify_document_spec [of "''scans/img002.jpg''" "''Dear Sir''", unfolded p2]
  have "classify_document ''data/invoice/img001.jpg'' ''Dear Sir'' =
        [''data'', ''invoice'', ''img001.jpg''] ! 1"
    by (rule s1 [THEN conjunct1, rule_format, of 1]) (simp_all add: DOCUMENT_CATEGORIES_def)
  moreover have "classify_document ''scans/img002.jpg'' ''Dear Sir'' =
        (case first_keyword_match ''Dear Sir'' of Some category \<Rightarrow> category | None \<Rightarrow> ''unknown'')"
    by (rule s2 [THEN conjunct2, THEN conjunct1, THEN mp]) (simp add: DOCUMENT_CATEGORIES_def)
  ultimately show ?thesis
    unfolding p1 p2 k by simp
qed

section \<open>The kinds present in an extraction result\<close>

lemma keys_dict_extend: "map fst (dict_extend key items d) = map fst d"
  by (induction d) (auto simp: dict_extend_def)

lemma keys_add_ner_entity: "map fst (add_ner_entity d entity) = map fst d"
  by (simp add: add_ner_entity_def dict_append_def keys_dict_extend Let_def)

lemma keys_foldl_add_ner_entity: "map fst (foldl add_ner_entity d spans) = map fst d"
  by (induction spans arbitrary: d) (simp_all add: keys_add_ner_entity)

lemma keys_clean_up: "map fst (clean_up pf d) = map fst d"
  by (induction d) (auto simp: clean_up_def)

lemma keys_model_entities: "map fst (model_entities pf ner_results text0) = entity_kinds"
  by (simp add: model_entities_def Let_def keys_clean_up keys_dict_extend
      keys_foldl_add_ner_entity empty_entities_def entity_kinds_def)

lemma model_path_kinds:
  assumes "\<not> model_call_raises self text0"
  shows "\<exists>ents. extract_entities_with_llm pf self text0 document_type = Inr ents \<and>
           map fst ents = entity_kinds"
proof (cases "ner_pipeline self")
  case None
  then show ?thesis
    by (simp add: extract_entities_with_llm_def empty_entities_def entity_kinds_def)
next
  case (Some ner)
  show ?thesis
  proof (cases "strip text0 = []")
    case True
    with Some show ?thesis
      by (simp add: extract_entities_with_llm_def empty_entities_def entity_kinds_def)
  next
    case False
    with Some assms obtain ner_results where "ner (take 512 text0) = Inr ner_results"
      by (cases "ner (take 512 text0)") (auto simp: model_call_raises_def)
    with Some False show ?thesis
      by (simp add: extract_entities_with_llm_def keys_model_entities)
  qed
qed

lemma keys_entities_spec:
  "kind \<in> fst ` set (entities_spec fa text0 patterns) \<longleftrightarrow>
   (\<exists>pattern_list. (kind, pattern_list) \<in> set patterns \<and> find_matches fa text0 pattern_list \<noteq> [])"
  by (force simp: entities_spec_def)

lemma entities_spec_nonempty: "(kind, []) \<notin> set (entities_spec fa text0 patterns)"
proof
  assume "(kind, []) \<in> set (entities_spec fa text0 patterns)"
  then obtain pattern_list where "find_matches fa text0 pattern_list \<noteq> []"
    and "dedup_first (find_matches fa text0 pattern_list) = []"
    by (auto simp: entities_spec_def)
  then show False by (simp add: dedup_first_Nil_iff)
qed

text \<open>
  C6: the regex extractor's result has a kind exactly when one of the kind's patterns
  matched, and never maps a kind to the empty list; the model-assisted extractor,
  whenever the model call does not raise, returns a result whose kinds are the eight
  fixed ones, in their order, present also when their lists are empty.
\<close>

theorem entity_kind_presence:
  assumes "distinct (map fst patterns)"
  shows "(\<forall>kind. kind \<in> fst ` set (extract_entities fa text0 patterns) \<longleftrightarrow>
            (\<exists>pattern_list. (kind, pattern_list) \<in> set patterns \<and>
               find_matches fa text0 pattern_list \<noteq> [])) \<and>
         (\<forall>kind. (kind, []) \<notin> set (extract_entities fa text0 patterns)) \<and>
         (\<not> model_call_raises self text1 \<longrightarrow>
            (\<exists>ents. extract_entities_with_llm pf self text1 document_type = Inr ents \<and>
               map fst ents = entity_kinds))"
  using assms
  by (simp add: extract_entities_spec keys_entities_spec entities_spec_nonempty model_path_kinds)

theorem entity_kind_presence_witness:
  "distinct (map fst [(''word'', [''[a-z]+'']), (''digit'', [''[0-9]''])]) \<and>
   find_matches demo_findall ''to be or not to be'' [''[0-9]''] = [] \<and>
   ''digit'' \<notin> fst ` set (extract_entities demo_findall ''to be or not to be''
      [(''word'', [''[a-z]+'']), (''digit'', [''[0-9]''])]) \<and>
   \<not> model_call_raises demo_pipeline ''Dear Jane Roe, thank you'' \<and>
   (\<exists>ents. extract_entities_with_llm demo_platform demo_pipeline ''Dear Jane Roe, thank you'' ''letter'' = Inr ents \<and>
      map fst ents = entity_kinds \<and> entity_list ents ''addresses'' = [])"
proof -
  have d: "distinct (map fst [(''word'', [''[a-z]+'']), (''digit'', [''[0-9]''])])"
    by simp
  have r: "\<not> model_call_raises demo_pipeline ''Dear Jane Roe, thank you''"
    by (simp add: model_call_raises_def demo_pipeline_def demo_ner_def)
  have f: "find_matches demo_findall ''to be or not to be'' [''[0-9]''] = []"
    by (simp add: find_matches_def demo_findall_def)
  have w: "find_matches demo_findall ''to be or not to be'' [''[a-z]+''] \<noteq> []"
    by (simp add: find_matches_def demo_findall_def)
  have e: "extract_entities_with_llm demo_platform demo_pipeline ''Dear Jane Roe, thank you'' ''letter'' =
    Inr [(''persons'', [''Jane Roe'']), (''organizations'', []), (''locations'', []), (''dates'', []),
         (''amounts'', [''$1,250.00'']), (''emails'', [''jane@example.com'']),
         (''phones'', [''555-123-4567'']), (''addresses'', [])]"
    by code_simp
  note t = entity_kind_presence [OF d, of demo_findall "''to be or not to be''" demo_pipeline
      "''Dear Jane Roe, thank you''" demo_platform "''letter''"]
  from t f w have "''digit'' \<notin> fst ` set (extract_entities demo_findall ''to be or not to be''
      [(''word'', [''[a-z]+'']), (''digit'', [''[0-9]''])])"
    by simp
  moreover from t r have "\<exists>ents. extract_entities_with_llm demo_platform demo_pipeline
      ''Dear Jane Roe, thank you'' ''letter'' = Inr ents \<and> map fst ents = entity_kinds"
    by blast
  ultimately show ?thesis using d r f e
    by (simp add: entity_list_def)
qed

section \<open>The content of a model-assisted result\<close>

lemma map_of_dict_extend:
  "map_of (dict_extend key items d) k =
   map_option (\<lambda>xs. if k = key then xs @ items else xs) (map_of d k)"
  by (induction d) (auto simp: dict_extend_def)

lemma add_ner_entity_routed:
  "add_ner_entity d entity =
   (case routed_kind entity of None \<Rightarrow> d | Some k \<Rightarrow> dict_append k (strip (word entity)) d)"
  by (simp add: add_ner_entity_def routed_kind_def Let_def)

lemma map_of_add_ner_entity:
  "map_of (add_ner_entity d entity) k =
   map_option (\<lambda>xs. xs @ map (\<lambda>e. strip (word e)) (filter (\<lambda>e. routed_kind e = Some k) [entity]))
     (map_of d k)"
  by (cases "routed_kind entity")
     (auto simp: add_ner_entity_routed dict_append_def map_of_dict_extend option.map_ident
           intro: option.map_cong)

lemma map_of_foldl_add_ner_entity:
  "map_of (foldl add_ner_entity d spans) k =
   map_option (\<lambda>xs. xs @ map (\<lambda>e. strip (word e)) (filter (\<lambda>e. routed_kind e = Some k) spans))
     (map_of d k)"
proof (induction spans arbitrary: d)
  case Nil
  then show ?case by (simp add: option.map_ident)
next
  case (Cons entity spans)
  show ?case
    by (cases "map_of d k") (simp_all add: Cons.IH map_of_add_ner_entity)
qed

lemma map_of_clean_up:
  "map_of (clean_up pf d) k =
   map_option (\<lambda>xs. filter (\<lambda>item. 1 < length (strip item)) (set_to_list pf xs)) (map_of d k)"
  by (induction d) (auto simp: clean_up_def)

lemma entity_list_model_entities:
  assumes "kind \<in> set entity_kinds"
  shows "entity_list (model_entities pf spans text0) kind =
    filter (\<lambda>item. 1 < length (strip item))
      (set_to_list pf
        (map (\<lambda>e. strip (word e)) (filter (\<lambda>e. routed_kind e = Some kind) spans) @
         (if kind = ''emails'' then findall pf email_pattern False text0 else []) @
         (if kind = ''phones'' then map (join ''-'') (findall_groups pf phone_pattern False text0) else []) @
         (if kind = ''amounts'' then findall pf money_pattern False text0 else [])))"
proof -
  have "map_of (model_entities pf spans text0) kind =
    map_option
      (\<lambda>xs. filter (\<lambda>item. 1 < length (strip item))
         (set_to_list pf
           (xs @ map (\<lambda>e. strip (word e)) (filter (\<lambda>e. routed_kind e = Some kind) spans) @
            (if kind = ''emails'' then findall pf email_pattern False text0 else []) @
            (if kind = ''phones'' then map (join ''-'') (findall_groups pf phone_pattern False text0) else []) @
            (if kind = ''amounts'' then findall pf money_pattern False text0 else []))))
      (map_of empty_entities kind)"
    by (cases "map_of empty_entities kind")
       (auto simp: model_entities_def Let_def map_of_clean_up map_of_dict_extend
          map_of_foldl_add_ner_entity)
  moreover from assms have "map_of empty_entities kind = Some []"
    by (auto simp: entity_kinds_def empty_entities_def)
  ultimately show ?thesis
    by (simp add: entity_list_def)
qed

lemma entity_list_outside:
  assumes "kind \<notin> set entity_kinds"
  shows "entity_list (model_entities pf spans text0) kind = []"
proof -
  from assms have "kind \<notin> fst ` set (model_entities pf spans text0)"
    using keys_model_entities [of pf spans text0] by (metis set_map)
  then have "map_of (model_entities pf spans text0) kind = None"
    by (simp add: map_of_eq_None_iff)
  then show ?thesis by (simp add: entity_list_def)
qed

lemma set_cleaned:
  assumes "set_semantics f"
  shows "set (f xs) = set xs" and "distinct (f xs)"
  using assms by (auto simp: set_semantics_def)

lemma routed_persons:
  "routed_kind e = Some ''persons'' \<longleftrightarrow>
   confidence_threshold < score e \<and> upper (entity_group e) \<in> {''PER'', ''PERSON''}"
  by (simp add: routed_kind_def Let_def)

lemma routed_organizations:
  "routed_kind e = Some ''organizations'' \<longleftrightarrow>
   confidence_threshold < score e \<and> upper (entity_group e) \<in> {''ORG'', ''ORGANIZATION''}"
  by (auto simp: routed_kind_def Let_def)

lemma routed_locations:
  "routed_kind e = Some ''locations'' \<longleftrightarrow>
   confidence_threshold < score e \<and> upper (entity_group e) \<in> {''LOC'', ''LOCATION''}"
  by (auto simp: routed_kind_def Let_def)

lemma routed_emails:
  "routed_kind e = Some ''emails'' \<longleftrightarrow>
   confidence_threshold < score e \<and> upper (entity_group e) = ''MISC'' \<and>
   any_word_in [''@'', ''email''] (lower (strip (word e)))"
  by (auto simp: routed_kind_def Let_def)

lemma routed_dates:
  "routed_kind e = Some ''dates'' \<longleftrightarrow>
   confidence_threshold < score e \<and> upper (entity_group e) = ''MISC'' \<and>
   \<not> any_word_in [''@'', ''email''] (lower (strip (word e))) \<and> list_ex isdigit (strip (word e))"
  by (auto simp: routed_kind_def Let_def)

lemma routed_others:
  "routed_kind e \<noteq> Some ''amounts''" "routed_kind e \<noteq> Some ''phones''"
  "routed_kind e \<noteq> Some ''addresses''"
  by (simp_all add: routed_kind_def Let_def)

lemma model_persons:
  assumes "set_semantics (set_to_list pf)"
  shows "set (entity_list (model_entities pf spans text0) ''persons'') =
    {v. 1 < length (strip v) \<and>
        (\<exists>e \<in> set spans. confidence_threshold < score e \<and> upper (entity_group e) \<in> {''PER'', ''PERSON''} \<and>
           v = strip (word e))}"
  by (auto simp: entity_list_model_entities entity_kinds_def set_cleaned(1) [OF assms]
      routed_persons)

lemma model_organizations:
  assumes "set_semantics (set_to_list pf)"
  shows "set (entity_list (model_entities pf spans text0) ''organizations'') =
    {v. 1 < length (strip v) \<and>
        (\<exists>e \<in> set spans. confidence_threshold < score e \<and>
           upper (entity_group e) \<in> {''ORG'', ''ORGANIZATION''} \<and> v = strip (word e))}"
  by (auto simp: entity_list_model_entities entity_kinds_def set_cleaned(1) [OF assms]
      routed_organizations)

lemma model_locations:
  assumes "set_semantics (set_to_list pf)"
  shows "set (entity_list (model_entities pf spans text0) ''locations'') =
    {v. 1 < length (strip v) \<and>
        (\<exists>e \<in> set spans. confidence_threshold < score e \<and>
           upper (entity_group e) \<in> {''LOC'', ''LOCATION''} \<and> v = strip (word e))}"
  by (auto simp: entity_list_model_entities entity_kinds_def set_cleaned(1) [OF assms]
      routed_locations)

lemma model_dates:
  assumes "set_semantics (set_to_list pf)"
  shows "set (entity_list (model_entities pf spans text0) ''dates'') =
    {v. 1 < length (strip v) \<and>
        (\<exists>e \<in> set spans. confidence_threshold < score e \<and> upper (entity_group e) = ''MISC'' \<and>
           \<not> any_word_in [''@'', ''email''] (lower v) \<and> list_ex isdigit v \<and>
           v = strip (word e))}"
  by (auto simp: entity_list_model_entities entity_kinds_def set_cleaned(1) [OF assms]
      routed_dates)

lemma model_emails:
  assumes "set_semantics (set_to_list pf)"
  shows "set (entity_list (model_entities pf spans text0) ''emails'') =
    {v. 1 < length (strip v) \<and>
        (v \<in> set (findall pf email_pattern False text0) \<or>
         (\<exists>e \<in> set spans. confidence_threshold < score e \<and> upper (entity_group e) = ''MISC'' \<and>
            any_word_in [''@'', ''email''] (lower v) \<and> v = strip (word e)))}"
  by (auto simp: entity_list_model_entities entity_kinds_def set_cleaned(1) [OF assms]
      routed_emails)

lemma model_phones:
  assumes "set_semantics (set_to_list pf)"
  shows "set (entity_list (model_entities pf spans text0) ''phones'') =
    {v. 1 < length (strip v) \<and>
        v \<in> join ''-'' ` set (findall_groups pf phone_pattern False text0)}"
  by (auto simp: entity_list_model_entities entity_kinds_def set_cleaned(1) [OF assms]
      routed_others)

lemma model_amounts:
  assumes "set_semantics (set_to_list pf)"
  shows "set (entity_list (model_entities pf spans text0) ''amounts'') =
    {v. 1 < length (strip v) \<and> v \<in> set (findall pf money_pattern False text0)}"
  by (auto simp: entity_list_model_entities entity_kinds_def set_cleaned(1) [OF assms]
      routed_others)

lemma model_addresses:
  assumes "set_semantics (set_to_list pf)"
  shows "set (entity_list (model_entities pf spans text0) ''addresses'') = {}"
  by (auto simp: entity_list_model_entities entity_kinds_def set_cleaned(1) [OF assms]
      routed_others)

lemma model_lists_clean:
  assumes "set_semantics (set_to_list pf)"
  shows "distinct (entity_list (model_entities pf spans text0) kind) \<and>
         (\<forall>v \<in> set (entity_list (model_entities pf spans text0) kind). 1 < length (strip v))"
proof (cases "kind \<in> set entity_kinds")
  case True
  then show ?thesis
    by (simp add: entity_list_model_entities set_cleaned [OF assms])
next
  case False
  then show ?thesis by (simp add: entity_list_outside)
qed

lemma model_path_content:
  assumes "set_semantics (set_to_list pf)"
    and "ner_pipeline self = Some ner"
    and "strip text0 \<noteq> []"
    and "ner (take 512 text0) = Inr spans"
  shows "\<exists>ents.
    extract_entities_with_llm pf self text0 document_type = Inr ents \<and>
    (\<forall>kind. distinct (entity_list ents kind) \<and>
       (\<forall>v \<in> set (entity_list ents kind). 1 < length (strip v))) \<and>
    set (entity_list ents ''persons'') =
      {v. 1 < length (strip v) \<and>
          (\<exists>e \<in> set spans. confidence_threshold < score e \<and> upper (entity_group e) \<in> {''PER'', ''PERSON''} \<and>
             v = strip (word e))} \<and>
    set (entity_list ents ''organizations'') =
      {v. 1 < length (strip v) \<and>
          (\<exists>e \<in> set spans. confidence_threshold < score e \<and>
             upper (entity_group e) \<in> {''ORG'', ''ORGANIZATION''} \<and> v = strip (word e))} \<and>
    set (entity_list ents ''locations'') =
      {v. 1 < length (strip v) \<and>
          (\<exists>e \<in> set spans. confidence_threshold < score e \<and>
             upper (entity_group e) \<in> {''LOC'', ''LOCATION''} \<and> v = strip (word e))} \<and>
    set (entity_list ents ''dates'') =
      {v. 1 < length (strip v) \<and>
          (\<exists>e \<in> set spans. confidence_threshold < score e \<and> upper (entity_group e) = ''MISC'' \<and>
             \<not> any_word_in [''@'', ''email''] (lower v) \<and> list_ex isdigit v \<and>
             v = strip (word e))} \<and>
    set (entity_list ents ''emails'') =
      {v. 1 < length (strip v) \<and>
          (v \<in> set (findall pf email_pattern False text0) \<or>
           (\<exists>e \<in> set spans. confidence_threshold < score e \<and> upper (entity_group e) = ''MISC'' \<and>
              any_word_in [''@'', ''email''] (lower v) \<and> v = strip (word e)))} \<and>
    set (entity_list ents ''phones'') =
      {v. 1 < length (strip v) \<and>
          v \<in> join ''-'' ` set (findall_groups pf phone_pattern False text0)} \<and>
    set (entity_list ents ''amounts'') =
      {v. 1 < length (strip v) \<and> v \<in> set (findall pf money_pattern False text0)} \<and>
    set (entity_list ents ''addresses'') = {}"
proof -
  let ?ents = "model_entities pf spans text0"
  from assms(2-4) have r: "extract_entities_with_llm pf self text0 document_type = Inr ?ents"
    by (simp add: extract_entities_with_llm_def)
  note s = assms(1)
  show ?thesis
  proof (rule exI [of _ ?ents], intro conjI)
    show "extract_entities_with_llm pf self text0 document_type = Inr ?ents"
      by (rule r)
    show "\<forall>kind. distinct (entity_list ?ents kind) \<and>
       (\<forall>v \<in> set (entity_list ?ents kind). 1 < length (strip v))"
      by (intro allI model_lists_clean [OF s])
  qed (rule model_persons [OF s] model_organizations [OF s] model_locations [OF s]
        model_dates [OF s] model_emails [OF s] model_phones [OF s] model_amounts [OF s]
        model_addresses [OF s])+
qed

lemma confidence_threshold_above: "8 / 10 < confidence_threshold"
  by (simp add: confidence_threshold_def)

text \<open>
  C7, as the code has it. When no NER pipeline is loaded, or the text is blank, the
  extractor returns the eight kinds with empty lists and runs no regex pass. When a
  pipeline is loaded, the text is not blank and the model call returns its spans, the
  model sees the first 512 characters of the text and nothing else; the persons,
  organizations and locations of the result are exactly the stripped words of the spans
  of that call whose confidence is strictly above the double 0.8 (which lies above 0.8:
  a span scored at it is dropped); the matches of the email, phone and amount patterns on
  the full text are merged into their kinds (a phone match as its three groups joined by
  hyphens); every list is free of duplicates and holds only entries whose stripped length
  exceeds 1. The lists are given as sets: the order in which Python lists a set is not
  fixed.
\<close>

theorem model_assisted_extraction:
  assumes "set_semantics (set_to_list pf)"
  shows "8 / 10 < confidence_threshold \<and>
   (ner_pipeline self = None \<or> strip text0 = [] \<longrightarrow>
      extract_entities_with_llm pf self text0 document_type = Inr empty_entities) \<and>
   (\<forall>ner spans.
      ner_pipeline self = Some ner \<and> strip text0 \<noteq> [] \<and> ner (take 512 text0) = Inr spans \<longrightarrow>
      (\<exists>ents.
       extract_entities_with_llm pf self text0 document_type = Inr ents \<and>
       (\<forall>kind. distinct (entity_list ents kind) \<and>
          (\<forall>v \<in> set (entity_list ents kind). 1 < length (strip v))) \<and>
       set (entity_list ents ''persons'') =
         {v. 1 < length (strip v) \<and>
             (\<exists>e \<in> set spans. confidence_threshold < score e \<and> upper (entity_group e) \<in> {''PER'', ''PERSON''} \<and>
                v = strip (word e))} \<and>
       set (entity_list ents ''organizations'') =
         {v. 1 < length (strip v) \<and>
             (\<exists>e \<in> set spans. confidence_threshold < score e \<and>
                upper (entity_group e) \<in> {''ORG'', ''ORGANIZATION''} \<and> v = strip (word e))} \<and>
       set (entity_list ents ''locations'') =
         {v. 1 < length (strip v) \<and>
             (\<exists>e \<in> set spans. confidence_threshold < score e \<and>
                upper (entity_group e) \<in> {''LOC'', ''LOCATION''} \<and> v = strip (word e))} \<and>
       set (entity_list ents ''dates'') =
         {v. 1 < length (strip v) \<and>
             (\<exists>e \<in> set spans. confidence_threshold < score e \<and> upper (entity_group e) = ''MISC'' \<and>
                \<not> any_word_in [''@'', ''email''] (lower v) \<and> list_ex isdigit v \<and>
                v = strip (word e))} \<and>
       set (entity_list ents ''emails'') =
         {v. 1 < length (strip v) \<and>
             (v \<in> set (findall pf email_pattern False text0) \<or>
              (\<exists>e \<in> set spans. confidence_threshold < score e \<and> upper (entity_group e) = ''MISC'' \<and>
                 any_word_in [''@'', ''email''] (lower v) \<and> v = strip (word e)))} \<and>
       set (entity_list ents ''phones'') =
         {v. 1 < length (strip v) \<and>
             v \<in> join ''-'' ` set (findall_groups pf phone_pattern False text0)} \<and>
       set (entity_list ents ''amounts'') =
         {v. 1 < length (strip v) \<and> v \<in> set (findall pf money_pattern False text0)} \<and>
       set (entity_list ents ''addresses'') = {}))"
proof (intro conjI allI impI)
  show "8 / 10 < confidence_threshold"
    by (rule confidence_threshold_above)
next
  assume "ner_pipeline self = None \<or> strip text0 = []"
  then show "extract_entities_with_llm pf self text0 document_type = Inr empty_entities"
    by (auto simp: extract_entities_with_llm_def split: option.splits)
next
  fix ner spans
  assume "ner_pipeline self = Some ner \<and> strip text0 \<noteq> [] \<and> ner (take 512 text0) = Inr spans"
  then have h: "ner_pipeline self = Some ner" "strip text0 \<noteq> []" "ner (take 512 text0) = Inr spans"
    by simp_all
  show "\<exists>ents.
       extract_entities_with_llm pf self text0 document_type = Inr ents \<and>
       (\<forall>kind. distinct (entity_list ents kind) \<and>
          (\<forall>v \<in> set (entity_list ents kind). 1 < length (strip v))) \<and>
       set (entity_list ents ''persons'') =
         {v. 1 < length (strip v) \<and>
             (\<exists>e \<in> set spans. confidence_threshold < score e \<and> upper (entity_group e) \<in> {''PER'', ''PERSON''} \<and>
                v = strip (word e))} \<and>
       set (entity_list ents ''organizations'') =
         {v. 1 < length (strip v) \<and>
             (\<exists>e \<in> set spans. confidence_threshold < score e \<and>
                upper (entity_group e) \<in> {''ORG'', ''ORGANIZATION''} \<and> v = strip (word e))} \<and>
       set (entity_list ents ''locations'') =
         {v. 1 < length (strip v) \<and>
             (\<exists>e \<in> set spans. confidence_threshold < score e \<and>
                upper (entity_group e) \<in> {''LOC'', ''LOCATION''} \<and> v = strip (word e))} \<and>
       set (entity_list ents ''dates'') =
         {v. 1 < length (strip v) \<and>
             (\<exists>e \<in> set spans. confidence_threshold < score e \<and> upper (entity_group e) = ''MISC'' \<and>
                \<not> any_word_in [''@'', ''email''] (lower v) \<and> list_ex isdigit v \<and>
                v = strip (word e))} \<and>
       set (entity_list ents ''emails'') =
         {v. 1 < length (strip v) \<and>
             (v \<in> set (findall pf email_pattern False text0) \<or>
              (\<exists>e \<in> set spans. confidence_threshold < score e \<and> upper (entity_group e) = ''MISC'' \<and>
                 any_word_in [''@'', ''email''] (lower v) \<and> v = strip (word e)))} \<and>
       set (entity_list ents ''phones'') =
         {v. 1 < length (strip v) \<and>
             v \<in> join ''-'' ` set (findall_groups pf phone_pattern False text0)} \<and>
       set (entity_list ents ''amounts'') =
         {v. 1 < length (strip v) \<and> v \<in> set (findall pf money_pattern False text0)} \<and>
       set (entity_list ents ''addresses'') = {}"
    by (rule model_path_content [OF assms h])
qed

text \<open>
  C7 as stated (the regex passes run on every input text, independently of the model)
  fails: a pipeline whose NER model failed to load returns the empty default before any
  regex pass, also for a text in which the email pattern matches.
\<close>

theorem unloaded_model_skips_regex:
  "findall demo_platform email_pattern False ''Dear Jane Roe, jane@example.com'' =
     [''jane@example.com'', ''jane@example.com''] \<and>
   strip ''Dear Jane Roe, jane@example.com'' = ''Dear Jane Roe, jane@example.com'' \<and>
   extract_entities_with_llm demo_platform unloaded_pipeline ''Dear Jane Roe, jane@example.com'' ''letter'' =
     Inr empty_entities \<and>
   entity_list empty_entities ''emails'' = []"
  by code_simp

theorem model_assisted_extraction_witness:
  "set_semantics (set_to_list demo_platform) \<and>
   ner_pipeline unloaded_pipeline = None \<and>
   extract_entities_with_llm demo_platform unloaded_pipeline ''Dear Jane Roe, thank you'' ''letter'' =
     Inr empty_entities \<and>
   ner_pipeline demo_pipeline = Some demo_ner \<and>
   strip ''Dear Jane Roe, thank you'' \<noteq> [] \<and>
   demo_ner (take 512 ''Dear Jane Roe, thank you'') =
     Inr [\<lparr>entity_group = ''PER'', word = ''Jane Roe'', score = 99 / 100\<rparr>,
          \<lparr>entity_group = ''ORG'', word = ''Acme'', score = confidence_threshold\<rparr>] \<and>
   (\<exists>ents. extract_entities_with_llm demo_platform demo_pipeline ''Dear Jane Roe, thank you'' ''letter'' =
        Inr ents \<and>
      set (entity_list ents ''persons'') = {''Jane Roe''} \<and>
      set (entity_list ents ''organizations'') = {} \<and>
      set (entity_list ents ''emails'') = {''jane@example.com''} \<and>
      set (entity_list ents ''addresses'') = {})"
proof -
  have a: "set_semantics (set_to_list demo_platform)"
    by (simp add: set_semantics_def demo_platform_def)
  have u: "ner_pipeline unloaded_pipeline = None"
    by (simp add: unloaded_pipeline_def)
  have b: "ner_pipeline demo_pipeline = Some demo_ner"
    by (simp add: demo_pipeline_def)
  have c: "strip ''Dear Jane Roe, thank you'' \<noteq> []"
    by code_simp
  have d: "demo_ner (take 512 ''Dear Jane Roe, thank you'') =
     Inr [\<lparr>entity_group = ''PER'', word = ''Jane Roe'', score = 99 / 100\<rparr>,
          \<lparr>entity_group = ''ORG'', word = ''Acme'', score = confidence_threshold\<rparr>]"
    by (simp add: demo_ner_def)
  have e: "extract_entities_with_llm demo_platform demo_pipeline ''Dear Jane Roe, thank you'' ''letter'' =
    Inr [(''persons'', [''Jane Roe'']), (''organizations'', []), (''locations'', []), (''dates'', []),
         (''amounts'', [''$1,250.00'']), (''emails'', [''jane@example.com'']),
         (''phones'', [''555-123-4567'']), (''addresses'', [])]"
    by code_simp
  note t1 = model_assisted_extraction [OF a, of unloaded_pipeline "''Dear Jane Roe, thank you''" "''letter''"]
  note t2 = model_assisted_extraction [OF a, of demo_pipeline "''Dear Jane Roe, thank you''" "''letter''"]
  from t1 u have r1: "extract_entities_with_llm demo_platform unloaded_pipeline
      ''Dear Jane Roe, thank you'' ''letter'' = Inr empty_entities"
    by (elim conjE) simp
  from b c d have bcd: "ner_pipeline demo_pipeline = Some demo_ner \<and>
      strip ''Dear Jane Roe, thank you'' \<noteq> [] \<and>
      demo_ner (take 512 ''Dear Jane Roe, thank you'') =
        Inr [\<lparr>entity_group = ''PER'', word = ''Jane Roe'', score = 99 / 100\<rparr>,
             \<lparr>entity_group = ''ORG'', word = ''Acme'', score = confidence_threshold\<rparr>]"
    by (intro conjI)
  from t2 [THEN conjunct2, THEN conjunct2, rule_format, OF bcd]
  have "\<exists>ents. extract_entities_with_llm demo_platform demo_pipeline ''Dear Jane Roe, thank you''
      ''letter'' = Inr ents"
    by (elim exE conjE) (rule exI)
  then have "\<exists>ents. extract_entities_with_llm demo_platform demo_pipeline ''Dear Jane Roe, thank you''
      ''letter'' = Inr ents \<and>
      set (entity_list ents ''persons'') = {''Jane Roe''} \<and>
      set (entity_list ents ''organizations'') = {} \<and>
      set (entity_list ents ''emails'') = {''jane@example.com''} \<and>
      set (entity_list ents ''addresses'') = {}"
    unfolding e by (simp add: entity_list_def)
  with a u r1 b c d show ?thesis
    by (intro conjI)
qed

section \<open>Properties of the batch run\<close>

lemma store_documents_ok:
  assumes "store_documents self docs w = (Inr u, w')" and "docs \<noteq> []"
  shows "\<exists>request. add_calls w' = add_calls w @ [request] \<and>
           req_ids request = map doc_id docs \<and> req_documents request = map doc_text docs \<and>
           req_metadatas request = map metadata_of docs \<and>
           collection_add self (add_calls w) request = None"
    and "save_calls w' = save_calls w"
  using assms
  by (auto simp: store_documents_def Let_def split: sum.splits option.splits)

lemma store_documents_raised:
  assumes "store_documents self docs w = (Inl e, w')"
  shows "\<exists>new. add_calls w' = add_calls w @ new \<and> all_raised self (add_calls w) new"
    and "save_calls w' = save_calls w"
proof -
  show "save_calls w' = save_calls w"
    using assms
    by (auto simp: store_documents_def Let_def split: if_splits sum.splits option.splits)
  from assms have "add_calls w' = add_calls w @ [] \<or>
    (\<exists>request. add_calls w' = add_calls w @ [request] \<and>
       collection_add self (add_calls w) request \<noteq> None)"
    by (auto simp: store_documents_def Let_def split: if_splits sum.splits option.splits)
  then show "\<exists>new. add_calls w' = add_calls w @ new \<and> all_raised self (add_calls w) new"
  proof
    assume "add_calls w' = add_calls w @ []"
    then have "add_calls w' = add_calls w @ [] \<and> all_raised self (add_calls w) []"
      by simp
    then show ?thesis ..
  next
    assume "\<exists>request. add_calls w' = add_calls w @ [request] \<and>
       collection_add self (add_calls w) request \<noteq> None"
    then obtain request where "add_calls w' = add_calls w @ [request]"
      and "collection_add self (add_calls w) request \<noteq> None"
      by blast
    then have "add_calls w' = add_calls w @ [request] \<and> all_raised self (add_calls w) [request]"
      by simp
    then show ?thesis ..
  qed
qed

lemma process_single_document_not_ocr:
  "\<not> passes_ocr pf file_path \<Longrightarrow> process_single_document pf self file_path w = (None, w)"
  by (auto simp: passes_ocr_def process_single_document_def Let_def)

lemma process_single_document_None:
  assumes "process_single_document pf self file_path w = (None, w')"
  shows "\<exists>new. add_calls w' = add_calls w @ new \<and> all_raised self (add_calls w) new"
    and "save_calls w' = save_calls w"
proof -
  have triv: "\<exists>new. add_calls w = add_calls w @ new \<and> all_raised self (add_calls w) new"
    by (rule exI [of _ "[]"]) simp
  show "\<exists>new. add_calls w' = add_calls w @ new \<and> all_raised self (add_calls w) new"
  proof (cases "passes_ocr pf file_path")
    case False
    with assms have "w' = w" by (simp add: process_single_document_not_ocr)
    with triv show ?thesis by simp
  next
    case True
    let ?t = "clean_text (extract_text_from_image pf file_path)"
    show ?thesis
    proof (cases "extract_entities_with_llm pf self ?t (classify_document file_path ?t)")
      case (Inl e)
      with assms True have "w' = w"
        by (auto simp: passes_ocr_def process_single_document_def Let_def)
      with triv show ?thesis by simp
    next
      case (Inr ents)
      with assms True obtain d e where
        "store_documents self [d] (w\<lparr>clock := Suc (clock w)\<rparr>) = (Inl e, w')"
        by (auto simp: passes_ocr_def process_single_document_def Let_def split: prod.splits sum.splits)
      from store_documents_raised(1) [OF this] show ?thesis by simp
    qed
  qed
  show "save_calls w' = save_calls w"
  proof (cases "passes_ocr pf file_path")
    case False
    with assms show ?thesis by (simp add: process_single_document_not_ocr)
  next
    case True
    let ?t = "clean_text (extract_text_from_image pf file_path)"
    show ?thesis
    proof (cases "extract_entities_with_llm pf self ?t (classify_document file_path ?t)")
      case (Inl e)
      with assms True show ?thesis
        by (auto simp: passes_ocr_def process_single_document_def Let_def)
    next
      case (Inr ents)
      with assms True obtain d e where
        "store_documents self [d] (w\<lparr>clock := Suc (clock w)\<rparr>) = (Inl e, w')"
        by (auto simp: passes_ocr_def process_single_document_def Let_def split: prod.splits sum.splits)
      from store_documents_raised(2) [OF this] show ?thesis by simp
    qed
  qed
qed

lemma process_single_document_Some:
  assumes "process_single_document pf self file_path w = (Some d, w')"
  shows "passes_ocr pf file_path" and "doc_file_path d = file_path"
    and "\<exists>request. add_calls w' = add_calls w @ [request] \<and> single_request d request"
    and "save_calls w' = save_calls w"
proof -
  from assms show o: "passes_ocr pf file_path"
    by (auto simp: passes_ocr_def process_single_document_def Let_def split: if_splits)
  let ?t = "clean_text (extract_text_from_image pf file_path)"
  from assms o obtain ents u where
    s: "store_documents self [d] (w\<lparr>clock := Suc (clock w)\<rparr>) = (Inr u, w')"
    and p: "doc_file_path d = file_path"
    by (auto simp: passes_ocr_def process_single_document_def Let_def
        split: prod.splits sum.splits)
  from p show "doc_file_path d = file_path" .
  from store_documents_ok [OF s] show "save_calls w' = save_calls w"
    and "\<exists>request. add_calls w' = add_calls w @ [request] \<and> single_request d request"
    by (auto simp: single_request_def)
qed

lemma all_raised_append:
  "all_raised self earlier (xs @ ys) \<longleftrightarrow>
   all_raised self earlier xs \<and> all_raised self (earlier @ xs) ys"
  by (induction xs arbitrary: earlier) auto

lemma process_files_no_ocr:
  "list_all (\<lambda>f. \<not> passes_ocr pf f) files \<Longrightarrow> process_files pf self files w = ([], w)"
  by (induction files) (simp_all add: process_single_document_not_ocr)

lemma process_files_docs:
  assumes "process_files pf self files w = (docs, w')"
  shows "subseq (map doc_file_path docs) (filter (passes_ocr pf) files) \<and>
         save_calls w' = save_calls w \<and>
         (\<exists>new. add_calls w' = add_calls w @ new \<and>
            (\<forall>d \<in> set docs. \<exists>request \<in> set new. single_request d request))"
  using assms
proof (induction files arbitrary: w docs w')
  case Nil
  then show ?case by simp
next
  case (Cons file_path files)
  obtain r w1 where one: "process_single_document pf self file_path w = (r, w1)"
    by (cases "process_single_document pf self file_path w")
  obtain rest w2 where tl: "process_files pf self files w1 = (rest, w2)"
    by (cases "process_files pf self files w1")
  from Cons.IH [OF tl] obtain new2 where
    sub: "subseq (map doc_file_path rest) (filter (passes_ocr pf) files)"
    and sv: "save_calls w2 = save_calls w1"
    and ad: "add_calls w2 = add_calls w1 @ new2"
    and rq: "\<forall>d \<in> set rest. \<exists>request \<in> set new2. single_request d request"
    by blast
  show ?case
  proof (cases r)
    case None
    with Cons.prems one tl have eq: "docs = rest" "w' = w2"
      by simp_all
    from process_single_document_None [OF one [unfolded None]] obtain new1 where
      a1: "add_calls w1 = add_calls w @ new1" and s1: "save_calls w1 = save_calls w"
      by blast
    have "subseq (map doc_file_path rest) (filter (passes_ocr pf) (file_path # files))"
      using sub by (auto intro: list_emb_Cons)
    moreover have "add_calls w2 = add_calls w @ (new1 @ new2) \<and>
        (\<forall>d \<in> set rest. \<exists>request \<in> set (new1 @ new2). single_request d request)"
      using ad a1 rq by auto
    ultimately show ?thesis
      unfolding eq using sv s1 by (intro conjI exI [of _ "new1 @ new2"]) simp_all
  next
    case (Some d)
    with Cons.prems one tl have eq: "docs = d # rest" "w' = w2"
      by simp_all
    from process_single_document_Some [OF one [unfolded Some]] obtain request where
      o: "passes_ocr pf file_path" and p: "doc_file_path d = file_path"
      and a1: "add_calls w1 = add_calls w @ [request]" and q: "single_request d request"
      and s1: "save_calls w1 = save_calls w"
      by blast
    have "subseq (map doc_file_path (d # rest)) (filter (passes_ocr pf) (file_path # files))"
      using sub o p by simp
    moreover have "add_calls w2 = add_calls w @ (request # new2) \<and>
        (\<forall>d' \<in> set (d # rest). \<exists>request' \<in> set (request # new2). single_request d' request')"
      using ad a1 rq q by auto
    ultimately show ?thesis
      unfolding eq using sv s1 by (intro conjI exI [of _ "request # new2"]) simp_all
  qed
qed

lemma process_files_none:
  assumes "process_files pf self files w = ([], w')"
  shows "\<exists>new. add_calls w' = add_calls w @ new \<and> all_raised self (add_calls w) new"
  using assms
proof (induction files arbitrary: w)
  case Nil
  then have "add_calls w' = add_calls w @ [] \<and> all_raised self (add_calls w) []"
    by simp
  then show ?case ..
next
  case (Cons file_path files)
  obtain r w1 where one: "process_single_document pf self file_path w = (r, w1)"
    by (cases "process_single_document pf self file_path w")
  obtain rest w2 where tl: "process_files pf self files w1 = (rest, w2)"
    by (cases "process_files pf self files w1")
  from Cons.prems one tl have r: "r = None" and eq: "rest = []" "w2 = w'"
    by (cases r; simp)+
  from process_single_document_None(1) [OF one [unfolded r]] obtain new1 where
    a1: "add_calls w1 = add_calls w @ new1" and f1: "all_raised self (add_calls w) new1"
    by blast
  from Cons.IH [OF tl [unfolded eq]] obtain new2 where
    a2: "add_calls w' = add_calls w1 @ new2" and f2: "all_raised self (add_calls w1) new2"
    by blast
  have "add_calls w' = add_calls w @ (new1 @ new2) \<and> all_raised self (add_calls w) (new1 @ new2)"
    using a1 a2 f1 f2 by (simp add: all_raised_append)
  then show ?case ..
qed

lemma subseq_slice_to: "subseq (slice_to n xs) xs"
proof -
  have "subseq (take k xs) xs" for k
    by (metis append_take_drop_id prefix_def prefix_imp_subseq)
  then show ?thesis by (simp add: slice_to_def)
qed

lemma length_slice_to: "length (slice_to n xs) \<le> length xs"
  by (simp add: slice_to_def)

text \<open>
  C3, as the code has it: a batch run that returns, returns at most as many records as
  there are input files, and the files of its records are, in order, among the input
  files whose OCR text is neither empty nor shorter than 10 characters once stripped.
  When no file succeeds the run returns the empty list without raising, the JSON/CSV sink
  is not invoked, the batch-level store pass is skipped, and the only calls of the vector
  store are those of the per-document store step, each of which raised; when no file
  passes the OCR check nothing is invoked at all.
\<close>

theorem process_documents_batch:
  assumes "process_documents pf self found limit w = (r, w')"
  shows "(\<forall>docs. r = Inr docs \<longrightarrow>
            length docs \<le> length found \<and>
            subseq (map doc_file_path docs) (filter (passes_ocr pf) found)) \<and>
         (fst (process_files pf self (slice_to limit found) w) = [] \<longrightarrow>
            r = Inr [] \<and> save_calls w' = save_calls w \<and>
            (\<exists>new. add_calls w' = add_calls w @ new \<and> all_raised self (add_calls w) new)) \<and>
         (list_all (\<lambda>f. \<not> passes_ocr pf f) (slice_to limit found) \<longrightarrow> r = Inr [] \<and> w' = w)"
proof -
  let ?files = "slice_to limit found"
  obtain docs0 w1 where loop: "process_files pf self ?files w = (docs0, w1)"
    by (cases "process_files pf self ?files w")
  from process_files_docs [OF loop]
  have sub0: "subseq (map doc_file_path docs0) (filter (passes_ocr pf) ?files)"
    and sv0: "save_calls w1 = save_calls w"
    by blast+
  have "subseq (filter (passes_ocr pf) ?files) (filter (passes_ocr pf) found)"
    by (rule subseq_filter) (rule subseq_slice_to)
  with sub0 have sub: "subseq (map doc_file_path docs0) (filter (passes_ocr pf) found)"
    by (rule subseq_order.trans)
  then have "length (map doc_file_path docs0) \<le> length (filter (passes_ocr pf) found)"
    by (rule list_emb_length)
  then have len: "length docs0 \<le> length found"
    by (simp add: order_trans [OF _ length_filter_le])
  have ret: "docs = docs0" if "r = Inr docs" for docs
    using assms loop that
    by (auto simp: process_documents_def Let_def split: if_splits prod.splits sum.splits)
  have empty: "r = Inr [] \<and> w' = w1" if "docs0 = []"
    using assms loop that by (simp add: process_documents_def Let_def)
  show ?thesis
  proof (intro conjI allI impI)
    fix docs
    assume "r = Inr docs"
    then have "docs = docs0" by (rule ret)
    with len sub show "length docs \<le> length found"
      and "subseq (map doc_file_path docs) (filter (passes_ocr pf) found)"
      by simp_all
  next
    assume "fst (process_files pf self ?files w) = []"
    with loop have e: "docs0 = []" by simp
    with empty have rw: "r = Inr []" "w' = w1" by simp_all
    from rw show "r = Inr []" by simp
    from rw sv0 show "save_calls w' = save_calls w" by simp
    from process_files_none [OF loop [unfolded e]] rw
    show "\<exists>new. add_calls w' = add_calls w @ new \<and> all_raised self (add_calls w) new"
      by simp
  next
    assume "list_all (\<lambda>f. \<not> passes_ocr pf f) ?files"
    then have "process_files pf self ?files w = ([], w)"
      by (rule process_files_no_ocr)
    with loop have "docs0 = []" "w1 = w" by simp_all
    with empty show "r = Inr []" and "w' = w" by simp_all
  qed
qed

text \<open>
  C3 as stated (no call of the vector store when no file succeeds) fails: a file that
  passes OCR is handed to the vector store by \<open>process_single_document\<close>; when that call
  raises, the file does not succeed, and the batch ends with no success after the store
  was invoked.
\<close>

theorem zero_success_batch_calls_store:
  "fst (process_files demo_platform rejecting_pipeline [''data/letter/a.jpg''] demo_world) = [] \<and>
   fst (process_documents demo_platform rejecting_pipeline [''data/letter/a.jpg''] 50 demo_world) = Inr [] \<and>
   map req_ids (add_calls (snd (process_documents demo_platform rejecting_pipeline
      [''data/letter/a.jpg''] 50 demo_world))) = [[''letter_a.jpg'']]"
  by code_simp

lemma store_documents_encode_raised:
  assumes "embedder_encode self (map doc_text docs) = Inl e" and "docs \<noteq> []"
  shows "store_documents self docs w = (Inl e, w)"
  using assms by (simp add: store_documents_def Let_def)

lemma store_documents_encoded:
  assumes "embedder_encode self (map doc_text docs) = Inr embeddings" and "docs \<noteq> []"
    and "store_documents self docs w = (r, w')"
  shows "add_calls w' = add_calls w @
           [\<lparr>req_ids = map doc_id docs, req_documents = map doc_text docs,
             req_embeddings = embeddings, req_metadatas = map metadata_of docs\<rparr>]"
  using assms by (auto simp: store_documents_def Let_def split: option.splits)

lemma save_results_add_calls:
  "save_results pf docs w = (r, w') \<Longrightarrow> add_calls w' = add_calls w"
  by (auto simp: save_results_def Let_def split: option.splits)

text \<open>
  C10, as the code has it: every document that succeeds inside a batch run was submitted
  to \<^verbatim>\<open>collection.add\<close> by \<open>process_single_document\<close>, in a request of its own; and
  when the batch-level embedding call returns, it is submitted a second time under the
  same id, in the one request of the batch-level store pass that carries all documents
  that succeeded (whether or not that call of \<^verbatim>\<open>collection.add\<close> then raises). When the
  batch-level embedding call raises, the run raises and no second request is made.
\<close>

theorem batch_submissions:
  assumes "process_documents pf self found limit w = (r, w')"
    and "process_files pf self (slice_to limit found) w = (docs, w1)"
  shows "\<exists>new. add_calls w1 = add_calls w @ new \<and>
           (\<forall>d \<in> set docs. \<exists>request \<in> set new. single_request d request) \<and>
           (docs \<noteq> [] \<longrightarrow>
              (case embedder_encode self (map doc_text docs) of
                 Inl e \<Rightarrow> r = Inl e \<and> add_calls w' = add_calls w @ new
               | Inr embeddings \<Rightarrow>
                   add_calls w' = add_calls w @ new @
                     [\<lparr>req_ids = map doc_id docs, req_documents = map doc_text docs,
                       req_embeddings = embeddings, req_metadatas = map metadata_of docs\<rparr>]))"
proof -
  from process_files_docs [OF assms(2)] obtain new where
    a1: "add_calls w1 = add_calls w @ new"
    and rq: "\<forall>d \<in> set docs. \<exists>request \<in> set new. single_request d request"
    by blast
  have "case embedder_encode self (map doc_text docs) of
          Inl e \<Rightarrow> r = Inl e \<and> add_calls w' = add_calls w @ new
        | Inr embeddings \<Rightarrow>
            add_calls w' = add_calls w @ new @
              [\<lparr>req_ids = map doc_id docs, req_documents = map doc_text docs,
                req_embeddings = embeddings, req_metadatas = map metadata_of docs\<rparr>]"
    if ne: "docs \<noteq> []"
  proof (cases "embedder_encode self (map doc_text docs)")
    case (Inl e)
    from store_documents_encode_raised [OF Inl ne] assms ne have "r = Inl e" "w' = w1"
      by (simp_all add: process_documents_def Let_def)
    with Inl a1 show ?thesis by simp
  next
    case (Inr embeddings)
    obtain r2 w2 where st: "store_documents self docs w1 = (r2, w2)"
      by (cases "store_documents self docs w1")
    from store_documents_encoded [OF Inr ne st] have a2: "add_calls w2 = add_calls w1 @
           [\<lparr>req_ids = map doc_id docs, req_documents = map doc_text docs,
             req_embeddings = embeddings, req_metadatas = map metadata_of docs\<rparr>]" .
    have "add_calls w' = add_calls w2"
    proof (cases r2)
      case (Inl e)
      with assms st ne show ?thesis
        by (simp add: process_documents_def Let_def)
    next
      case (Inr u)
      obtain r3 w3 where sv: "save_results pf docs w2 = (r3, w3)"
        by (cases "save_results pf docs w2")
      from assms st ne Inr sv have "w' = w3"
        by (cases r3) (simp_all add: process_documents_def Let_def)
      with save_results_add_calls [OF sv] show ?thesis by simp
    qed
    with Inr a1 a2 show ?thesis by simp
  qed
  with a1 rq show ?thesis by blast
qed

text \<open>
  C10 as stated (every document that succeeds is submitted twice) fails: when the
  embedder raises on the batch of the successful documents, the run ends before the
  batch-level request, and each document was submitted once.
\<close>

theorem batch_embedding_failure_stores_once:
  "map doc_id (fst (process_files demo_platform batch_failing_pipeline
      [''data/letter/a.jpg'', ''data/letter/d.jpg''] demo_world)) = [''letter_a.jpg'', ''letter_d.jpg''] \<and>
   fst (process_documents demo_platform batch_failing_pipeline
      [''data/letter/a.jpg'', ''data/letter/d.jpg''] 50 demo_world) = Inl (LibraryError ''out of memory'') \<and>
   map req_ids (add_calls (snd (process_documents demo_platform batch_failing_pipeline
      [''data/letter/a.jpg'', ''data/letter/d.jpg''] 50 demo_world))) = [[''letter_a.jpg''], [''letter_d.jpg'']]"
  by code_simp

theorem process_documents_batch_witness:
  "fst (process_documents demo_platform demo_pipeline demo_files 50 demo_world) = Inr [demo_doc] \<and>
   length [demo_doc] \<le> length demo_files \<and>
   subseq (map doc_file_path [demo_doc]) (filter (passes_ocr demo_platform) demo_files) \<and>
   fst (process_files demo_platform rejecting_pipeline (slice_to 50 [''data/letter/a.jpg'']) demo_world) = [] \<and>
   fst (process_documents demo_platform rejecting_pipeline [''data/letter/a.jpg''] 50 demo_world) = Inr [] \<and>
   save_calls (snd (process_documents demo_platform rejecting_pipeline [''data/letter/a.jpg''] 50 demo_world)) =
     save_calls demo_world \<and>
   list_all (\<lambda>f. \<not> passes_ocr demo_platform f) (slice_to 50 [''data/letter/b.jpg'', ''data/letter/c.jpg'']) \<and>
   fst (process_documents demo_platform demo_pipeline [''data/letter/b.jpg'', ''data/letter/c.jpg''] 50 demo_world) = Inr [] \<and>
   snd (process_documents demo_platform demo_pipeline [''data/letter/b.jpg'', ''data/letter/c.jpg''] 50 demo_world) = demo_world"
proof -
  let ?r1 = "process_documents demo_platform demo_pipeline demo_files 50 demo_world"
  let ?r2 = "process_documents demo_platform rejecting_pipeline [''data/letter/a.jpg''] 50 demo_world"
  let ?r3 = "process_documents demo_platform demo_pipeline [''data/letter/b.jpg'', ''data/letter/c.jpg''] 50 demo_world"
  have h1: "fst ?r1 = Inr [demo_doc]"
    by code_simp
  have h2: "fst (process_files demo_platform rejecting_pipeline (slice_to 50 [''data/letter/a.jpg'']) demo_world) = []"
    by code_simp
  have h3: "list_all (\<lambda>f. \<not> passes_ocr demo_platform f) (slice_to 50 [''data/letter/b.jpg'', ''data/letter/c.jpg''])"
    by code_simp
  have p1: "?r1 = (fst ?r1, snd ?r1)" and p2: "?r2 = (fst ?r2, snd ?r2)" and p3: "?r3 = (fst ?r3, snd ?r3)"
    by simp_all
  note t1 = process_documents_batch [OF p1, THEN conjunct1, rule_format, OF h1]
  note t2 = process_documents_batch [OF p2, THEN conjunct2, THEN conjunct1, THEN mp, OF h2]
  note t3 = process_documents_batch [OF p3, THEN conjunct2, THEN conjunct2, THEN mp, OF h3]
  from h1 h2 h3 t1 t2 t3 show ?thesis
    by (intro conjI) (erule conjE | assumption)+
qed

theorem batch_submissions_witness:
  "fst (process_files demo_platform demo_pipeline (slice_to 50 demo_files) demo_world) = [demo_doc] \<and>
   embedder_encode demo_pipeline (map doc_text [demo_doc]) = Inr [[0]] \<and>
   map req_ids (add_calls (snd (process_documents demo_platform demo_pipeline demo_files 50 demo_world))) =
     [[''letter_a.jpg''], [''letter_a.jpg'']] \<and>
   (\<exists>new. add_calls (snd (process_documents demo_platform demo_pipeline demo_files 50 demo_world)) =
      add_calls demo_world @ new @
        [\<lparr>req_ids = map doc_id [demo_doc], req_documents = map doc_text [demo_doc],
          req_embeddings = [[0]], req_metadatas = map metadata_of [demo_doc]\<rparr>] \<and>
      (\<exists>request \<in> set new. single_request demo_doc request))"
proof -
  let ?r = "process_documents demo_platform demo_pipeline demo_files 50 demo_world"
  let ?l = "process_files demo_platform demo_pipeline (slice_to 50 demo_files) demo_world"
  have h: "fst ?l = [demo_doc]"
    by code_simp
  have e: "embedder_encode demo_pipeline (map doc_text [demo_doc]) = Inr [[0]]"
    by (simp add: demo_pipeline_def)
  have i: "map req_ids (add_calls (snd ?r)) = [[''letter_a.jpg''], [''letter_a.jpg'']]"
    by code_simp
  have pr: "?r = (fst ?r, snd ?r)"
    by simp
  have pl: "?l = ([demo_doc], snd ?l)"
    using h by (simp add: prod_eq_iff)
  from batch_submissions [OF pr pl] obtain new where
    n1: "\<forall>d \<in> set [demo_doc]. \<exists>request \<in> set new. single_request d request"
    and n2: "[demo_doc] \<noteq> [] \<longrightarrow>
      (case embedder_encode demo_pipeline (map doc_text [demo_doc]) of
         Inl e \<Rightarrow> fst ?r = Inl e \<and> add_calls (snd ?r) = add_calls demo_world @ new
       | Inr embeddings \<Rightarrow>
           add_calls (snd ?r) = add_calls demo_world @ new @
             [\<lparr>req_ids = map doc_id [demo_doc], req_documents = map doc_text [demo_doc],
               req_embeddings = embeddings, req_metadatas = map metadata_of [demo_doc]\<rparr>])"
    by blast
  from n2 have "add_calls (snd ?r) = add_calls demo_world @ new @
        [\<lparr>req_ids = map doc_id [demo_doc], req_documents = map doc_text [demo_doc],
          req_embeddings = [[0]], req_metadatas = map metadata_of [demo_doc]\<rparr>]"
    unfolding e by simp
  moreover from n1 have "\<exists>request \<in> set new. single_request demo_doc request"
    by simp
  ultimately have "\<exists>new. add_calls (snd ?r) = add_calls demo_world @ new @
        [\<lparr>req_ids = map doc_id [demo_doc], req_documents = map doc_text [demo_doc],
          req_embeddings = [[0]], req_metadatas = map metadata_of [demo_doc]\<rparr>] \<and>
      (\<exists>request \<in> set new. single_request demo_doc request)"
    by (intro exI conjI)
  with h e i show ?thesis
    by (intro conjI)
qed

end
